theory Spec2Isabelle
  imports Complex_Main "HOL-Library.Log_Nat" "HOL-Library.Code_Target_Numeral"
begin

section \<open>JavaScript numbers\<close>

text \<open>
  Every number of \<^verbatim>\<open>src/App.jsx\<close> is an IEEE 754 binary64 value. A finite one is
  modelled by the real number it denotes. The result of an arithmetic operation is the
  exact result rounded to the nearest binary64 value, ties to the even significand.

  \<open>rne\<close> rounds a real to the nearest integer, a tie to the even one.
\<close>

definition rne :: "real \<Rightarrow> int" where
  "rne x =
     (let f = \<lfloor>x\<rfloor>; d = x - of_int f
      in if d < 1 / 2 then f
         else if 1 / 2 < d then f + 1
         else if even f then f else f + 1)"

text \<open>
  The binary64 values are the numbers \<open>\<plusminus> m * 2 ^ e\<close> with \<open>m < 2 ^ 53\<close> and
  \<open>- 1074 \<le> e \<le> 971\<close>. With \<open>y = x * 2 ^ 1074\<close> (the magnitude counted in units of the
  smallest subnormal), the spacing of the values around \<open>y\<close> is \<open>2 ^ k\<close> units, where
  \<open>k\<close> is the number of bits of \<open>\<lfloor>y\<rfloor>\<close> beyond 53, and 0 for the subnormals and the
  first binade.
\<close>

definition ulp_exp :: "real \<Rightarrow> nat" where
  "ulp_exp y = floorlog 2 (nat \<lfloor>y\<rfloor>) - 53"

definition round_units :: "real \<Rightarrow> real" where
  "round_units y = (let u = 2 ^ ulp_exp y in of_int (rne (y / u)) * u)"

definition fl_pos :: "real \<Rightarrow> real" where
  "fl_pos x = round_units (x * 2 ^ 1074) / 2 ^ 1074"

definition fl :: "real \<Rightarrow> real" where
  "fl x = (if 0 \<le> x then fl_pos x else - fl_pos (- x))"

text \<open>
  \<open>is_double x\<close>: \<open>x\<close> is a finite binary64 value. Rounding leaves it alone and it is
  below the overflow bound \<open>2 ^ 1024\<close>. \<open>fl\<close> gives the result of an operation as long
  as that result is below the bound; \<open>tick_total_is_double\<close> below shows that the
  accumulation of the tick never leaves the finite values, so that Infinity and NaN do
  not occur in this program.
\<close>

definition is_double :: "real \<Rightarrow> bool" where
  "is_double x \<longleftrightarrow> fl x = x \<and> \<bar>x\<bar> < 2 ^ 1024"

definition js_add :: "real \<Rightarrow> real \<Rightarrow> real" where
  "js_add x y = fl (x + y)"

definition js_mul :: "real \<Rightarrow> real \<Rightarrow> real" where
  "js_mul x y = fl (x * y)"

text \<open>The divisor is the non-zero constant 60000 at the only call.\<close>

definition js_div :: "real \<Rightarrow> real \<Rightarrow> real" where
  "js_div x y = fl (x / y)"

definition Math_floor :: "real \<Rightarrow> real" where
  "Math_floor x = of_int \<lfloor>x\<rfloor>"

text \<open>
  \<^verbatim>\<open>Math.random()\<close> returns a binary64 value that is at least 0 and below 1.
\<close>

definition Math_random_value :: "real \<Rightarrow> bool" where
  "Math_random_value r \<longleftrightarrow> is_double r \<and> 0 \<le> r \<and> r < 1"

section \<open>Configuration\<close>

definition TICK_MS :: real where
  "TICK_MS = 2000"

definition LEAK_THRESHOLD :: real where
  "LEAK_THRESHOLD = 8"

definition LEAK_CONSEC_TICKS :: real where
  "LEAK_CONSEC_TICKS = 3"

definition MAX_POINTS :: nat where
  "MAX_POINTS = 30"

section \<open>State of the component\<close>

text \<open>
  The state hooks and the ref of \<^verbatim>\<open>App\<close>. \<open>highCount\<close> is
  \<^verbatim>\<open>highCountRef.current\<close>, a JavaScript number like the others: it starts at 0 and
  \<^verbatim>\<open>+= 1\<close> is a binary64 addition, exact as long as the count is below \<open>2 ^ 53\<close>.
  \<^verbatim>\<open>runningRef\<close> and \<^verbatim>\<open>cancelled\<close> only decide whether a scheduled tick runs;
  \<open>tick\<close> below is the body of a tick that does run.
\<close>

record state =
  currentFlow :: real
  totalLiters :: real
  labels :: "string list"
  series :: "real list"
  leakDetected :: bool
  forceLeak :: bool
  highCount :: real

definition init :: state where
  "init = \<lparr>currentFlow = 0, totalLiters = 0, labels = [], series = [],
            leakDetected = False, forceLeak = False, highCount = 0\<rparr>"

section \<open>Operations\<close>

text \<open>
  \<^verbatim>\<open>const base = forceLeak ? 11 : 1; const span = forceLeak ? 3 : 12;\<close>
  \<^verbatim>\<open>const flow = Math.floor(Math.random() * span) + base;\<close>
  The value \<open>r\<close> of \<^verbatim>\<open>Math.random()\<close> is an input of the model.
\<close>

definition gen_flow :: "bool \<Rightarrow> real \<Rightarrow> real" where
  "gen_flow force r =
     (let base = (if force then 11 else 1);
          span = (if force then 3 else 12)
      in js_add (Math_floor (js_mul r span)) base)"

text \<open>
  \<^verbatim>\<open>next.slice(-n)\<close>: the last \<open>n\<close> elements, the whole array when it is shorter.
\<close>

definition slice_last :: "nat \<Rightarrow> 'a list \<Rightarrow> 'a list" where
  "slice_last n xs = drop (length xs - n) xs"

text \<open>
  \<^verbatim>\<open>(prev) => { const next = [...prev, x]; return next.length > MAX_POINTS ? next.slice(-MAX_POINTS) : next; }\<close>
\<close>

definition push_point :: "'a \<Rightarrow> 'a list \<Rightarrow> 'a list" where
  "push_point x prev =
     (let next = prev @ [x]
      in if length next > MAX_POINTS then slice_last MAX_POINTS next else next)"

text \<open>
  The rest of the tick, from the generated flow on. \<open>ts\<close> is the clock string of
  \<^verbatim>\<open>new Date().toLocaleTimeString(...)\<close>, an input of the model.
\<close>

definition tick_flow :: "real \<Rightarrow> string \<Rightarrow> state \<Rightarrow> state" where
  "tick_flow flow ts s =
     (let count = (if flow > LEAK_THRESHOLD then js_add (highCount s) 1 else 0)
      in s\<lparr>currentFlow := flow,
            series := push_point flow (series s),
            labels := push_point ts (labels s),
            totalLiters := js_add (totalLiters s) (js_mul flow (js_div TICK_MS 60000)),
            highCount := count,
            leakDetected := (if count \<ge> LEAK_CONSEC_TICKS then True else leakDetected s)\<rparr>)"

definition tick :: "real \<Rightarrow> string \<Rightarrow> state \<Rightarrow> state" where
  "tick r ts s = tick_flow (gen_flow (forceLeak s) r) ts s"

definition acknowledgeAlert :: "state \<Rightarrow> state" where
  "acknowledgeAlert s = s\<lparr>leakDetected := False, highCount := 0\<rparr>"

definition resetDay :: "state \<Rightarrow> state" where
  "resetDay s = s\<lparr>series := [], labels := [], totalLiters := 0,
                   leakDetected := False, highCount := 0\<rparr>"

text \<open>\<^verbatim>\<open>setForceLeak((s) => !s)\<close>, the handler of the first button.\<close>

definition toggleForceLeak :: "state \<Rightarrow> state" where
  "toggleForceLeak s = s\<lparr>forceLeak := \<not> forceLeak s\<rparr>"

text \<open>
  The events of the component: a tick of the timer with its two inputs, and the three
  buttons. A run applies a list of events, the first one first.
\<close>

datatype event = Tick real string | AcknowledgeAlert | ResetDay | ToggleForceLeak

fun apply_event :: "event \<Rightarrow> state \<Rightarrow> state" where
  "apply_event (Tick r ts) s = tick r ts s"
| "apply_event AcknowledgeAlert s = acknowledgeAlert s"
| "apply_event ResetDay s = resetDay s"
| "apply_event ToggleForceLeak s = toggleForceLeak s"

fun run :: "event list \<Rightarrow> state \<Rightarrow> state" where
  "run [] s = s"
| "run (e # es) s = run es (apply_event e s)"

fun random_ok :: "event \<Rightarrow> bool" where
  "random_ok (Tick r ts) = Math_random_value r"
| "random_ok _ = True"

section \<open>Rounding to the nearest integer\<close>

lemma rne_of_int: "rne (of_int n) = n"
  by (simp add: rne_def)

lemma rne_lower: "x - 1 / 2 \<le> of_int (rne x)"
  unfolding rne_def Let_def by (auto; linarith)

lemma rne_upper: "of_int (rne x) \<le> x + 1 / 2"
  unfolding rne_def Let_def by (auto; linarith)

lemma rne_floor_le: "\<lfloor>x\<rfloor> \<le> rne x"
  unfolding rne_def Let_def by auto

lemma rne_le_floor1: "rne x \<le> \<lfloor>x\<rfloor> + 1"
  unfolding rne_def Let_def by auto

lemma rne_mono: assumes "x \<le> y" shows "rne x \<le> rne y"
proof (cases "\<lfloor>x\<rfloor> = \<lfloor>y\<rfloor>")
  case True
  then show ?thesis using assms unfolding rne_def Let_def by auto
next
  case False
  then have "\<lfloor>x\<rfloor> < \<lfloor>y\<rfloor>" using assms floor_mono[of x y] by linarith
  then show ?thesis using rne_le_floor1[of x] rne_floor_le[of y] by linarith
qed

lemma rne_le_int: "x \<le> of_int n \<Longrightarrow> rne x \<le> n"
  using rne_mono[of x "of_int n"] by (simp add: rne_of_int)

lemma rne_ge_int: "of_int n \<le> x \<Longrightarrow> n \<le> rne x"
  using rne_mono[of "of_int n" x] by (simp add: rne_of_int)

lemma ulp_exp_mono: "0 \<le> x \<Longrightarrow> x \<le> y \<Longrightarrow> ulp_exp x \<le> ulp_exp y"
  unfolding ulp_exp_def
  by (intro diff_le_mono floorlog_mono nat_mono floor_mono)

section \<open>Rounding to binary64\<close>

lemma scaled_lt: assumes "0 \<le> y" shows "y / 2 ^ ulp_exp y < 2 ^ 53"
proof -
  let ?n = "nat \<lfloor>y\<rfloor>"
  let ?k = "ulp_exp y"
  have "floorlog 2 ?n \<le> 53 + ?k" by (simp add: ulp_exp_def)
  then have "?n < 2 ^ (53 + ?k)" by (rule floorlog_leD) simp
  then have "\<lfloor>y\<rfloor> < 2 ^ (53 + ?k)" using assms by (simp add: nat_less_iff)
  then have "y < 2 ^ (53 + ?k)" by (simp add: floor_less_iff)
  then have "y < 2 ^ 53 * 2 ^ ?k" by (simp add: power_add)
  then show ?thesis by (simp add: pos_divide_less_eq)
qed

lemma scaled_ge: assumes "0 < ulp_exp y" shows "2 ^ 52 \<le> y / 2 ^ ulp_exp y"
proof -
  let ?n = "nat \<lfloor>y\<rfloor>"
  let ?k = "ulp_exp y"
  have "Suc (52 + ?k) \<le> floorlog 2 ?n" using assms by (simp add: ulp_exp_def)
  then have "(2::nat) ^ (Suc (52 + ?k) - 1) \<le> ?n" by (rule floorlog_geD) simp
  then have n: "(2::nat) ^ (52 + ?k) \<le> ?n" by (simp only: diff_Suc_1)
  have "(0::nat) < 2 ^ (52 + ?k)" by simp
  with n have "0 < ?n" by linarith
  then have pos: "0 \<le> \<lfloor>y\<rfloor>" by linarith
  from n have "int (2 ^ (52 + ?k)) \<le> \<lfloor>y\<rfloor>" using pos by (simp only: le_nat_iff)
  then have "real_of_int (int (2 ^ (52 + ?k))) \<le> y" by (simp only: le_floor_iff)
  then have "2 ^ (52 + ?k) \<le> y" by simp
  then have "2 ^ 52 * 2 ^ ?k \<le> y" by (simp only: power_add)
  then show ?thesis by (simp add: pos_le_divide_eq)
qed

lemma round_units_nonneg: assumes "0 \<le> y" shows "0 \<le> round_units y"
proof -
  have "0 \<le> y / 2 ^ ulp_exp y" using assms by simp
  then have "0 \<le> rne (y / 2 ^ ulp_exp y)" using rne_ge_int[of 0] by simp
  then show ?thesis by (simp add: round_units_def Let_def)
qed

lemma round_units_mono: assumes "0 \<le> x" "x \<le> y" shows "round_units x \<le> round_units y"
proof -
  let ?j = "ulp_exp x" and ?k = "ulp_exp y"
  have jk: "?j \<le> ?k" using assms by (rule ulp_exp_mono)
  show ?thesis
  proof (cases "?j = ?k")
    case True
    have "x / 2 ^ ?k \<le> y / 2 ^ ?k" using assms by (simp add: divide_right_mono)
    then have "rne (x / 2 ^ ?k) \<le> rne (y / 2 ^ ?k)" by (rule rne_mono)
    then show ?thesis by (simp add: round_units_def Let_def True)
  next
    case False
    then have lt: "?j < ?k" using jk by simp
    have "x / 2 ^ ?j \<le> of_int (2 ^ 53)" using scaled_lt[OF assms(1)] by simp
    then have "rne (x / 2 ^ ?j) \<le> 2 ^ 53" by (rule rne_le_int)
    then have "real_of_int (rne (x / 2 ^ ?j)) \<le> 2 ^ 53"
      by (metis of_int_le_iff of_int_numeral of_int_power)
    then have a: "round_units x \<le> 2 ^ 53 * 2 ^ ?j"
      by (simp add: round_units_def Let_def)
    have "of_int (2 ^ 52) \<le> y / 2 ^ ?k" using scaled_ge[of y] lt by simp
    then have "2 ^ 52 \<le> rne (y / 2 ^ ?k)" by (rule rne_ge_int)
    then have "2 ^ 52 \<le> real_of_int (rne (y / 2 ^ ?k))"
      by (metis of_int_le_iff of_int_numeral of_int_power)
    then have b: "2 ^ 52 * 2 ^ ?k \<le> round_units y"
      by (simp add: round_units_def Let_def)
    have "Suc ?j \<le> ?k" using lt by simp
    then have "(2::real) ^ Suc ?j \<le> 2 ^ ?k" by (rule power_increasing) simp
    then have "(2::real) ^ 53 * 2 ^ ?j \<le> 2 ^ 52 * 2 ^ ?k" by simp
    with a b show ?thesis by linarith
  qed
qed

lemma ulp_exp_exact: assumes "0 < m" "m < 2 ^ 53" shows "ulp_exp (of_nat m * 2 ^ j) \<le> j"
proof -
  have "real m * 2 ^ j = real (m * 2 ^ j)" by simp
  then have "nat \<lfloor>real m * 2 ^ j\<rfloor> = m * 2 ^ j" by (simp only: floor_of_nat nat_int)
  then have "floorlog 2 (nat \<lfloor>real m * 2 ^ j\<rfloor>) = floorlog 2 m + j"
    using assms(1) by simp
  moreover have "floorlog 2 m \<le> 53" using assms(2) by (intro floorlog_leI) simp_all
  ultimately show ?thesis by (simp add: ulp_exp_def)
qed

lemma round_units_zero: "round_units 0 = 0"
  by (simp add: round_units_def rne_def)

lemma round_units_exact:
  assumes "m < 2 ^ 53" shows "round_units (of_nat m * 2 ^ j) = of_nat m * 2 ^ j"
proof (cases "m = 0")
  case True
  then show ?thesis by (simp add: round_units_zero)
next
  case False
  let ?y = "real m * 2 ^ j"
  let ?k = "ulp_exp ?y"
  have kj: "?k \<le> j" using False assms by (intro ulp_exp_exact) simp_all
  then have "?y / 2 ^ ?k = real m * 2 ^ (j - ?k)" by (simp add: power_diff)
  also have "\<dots> = of_int (int (m * 2 ^ (j - ?k)))" by simp
  finally have "rne (?y / 2 ^ ?k) = int (m * 2 ^ (j - ?k))" by (simp only: rne_of_int)
  then have "round_units ?y = real m * 2 ^ (j - ?k) * 2 ^ ?k"
    by (simp add: round_units_def Let_def)
  also have "\<dots> = real m * 2 ^ j" using kj by (simp flip: power_add)
  finally show ?thesis .
qed

lemma round_units_exact_top: "round_units (2 ^ 53 * 2 ^ j) = 2 ^ 53 * 2 ^ j"
proof -
  have "round_units (of_nat (2 ^ 52) * 2 ^ Suc j) = of_nat (2 ^ 52) * 2 ^ Suc j"
    by (rule round_units_exact) simp
  then show ?thesis by simp
qed

lemma round_units_idem: assumes "0 \<le> y" shows "round_units (round_units y) = round_units y"
proof -
  let ?k = "ulp_exp y"
  let ?n = "rne (y / 2 ^ ?k)"
  have ru: "round_units y = of_int ?n * 2 ^ ?k" by (simp add: round_units_def Let_def)
  have "0 \<le> y / 2 ^ ?k" using assms by simp
  then have n0: "0 \<le> ?n" using rne_ge_int[of 0] by simp
  have "y / 2 ^ ?k \<le> of_int (2 ^ 53)" using scaled_lt[OF assms] by simp
  then have n1: "?n \<le> 2 ^ 53" by (rule rne_le_int)
  show ?thesis
  proof (cases "?n = 2 ^ 53")
    case True
    then have "round_units y = 2 ^ 53 * 2 ^ ?k" using ru by simp
    then show ?thesis by (simp only: round_units_exact_top)
  next
    case False
    then have "?n < 2 ^ 53" using n1 by simp
    then have "nat ?n < 2 ^ 53" using n0 by (simp add: nat_less_iff)
    then have "round_units (of_nat (nat ?n) * 2 ^ ?k) = of_nat (nat ?n) * 2 ^ ?k"
      by (rule round_units_exact)
    moreover have "real (nat ?n) = of_int ?n" using n0 by simp
    ultimately show ?thesis using ru by simp
  qed
qed

lemma fl_pos_nonneg: "0 \<le> x \<Longrightarrow> 0 \<le> fl_pos x"
  unfolding fl_pos_def by (intro divide_nonneg_pos round_units_nonneg mult_nonneg_nonneg) simp_all

lemma fl_pos_zero: "fl_pos 0 = 0"
  by (simp add: fl_pos_def round_units_zero)

lemma fl_pos_mono: assumes "0 \<le> x" "x \<le> y" shows "fl_pos x \<le> fl_pos y"
proof -
  have "0 \<le> x * 2 ^ 1074" using assms(1) by (intro mult_nonneg_nonneg) simp_all
  moreover have "x * 2 ^ 1074 \<le> y * 2 ^ 1074" using assms(2) by (intro mult_right_mono) simp_all
  ultimately have "round_units (x * 2 ^ 1074) \<le> round_units (y * 2 ^ 1074)"
    by (rule round_units_mono)
  then show ?thesis unfolding fl_pos_def by (intro divide_right_mono) simp_all
qed

lemma fl_pos_idem: assumes "0 \<le> x" shows "fl_pos (fl_pos x) = fl_pos x"
proof -
  have "0 \<le> x * 2 ^ 1074" using assms by (intro mult_nonneg_nonneg) simp_all
  then have "round_units (round_units (x * 2 ^ 1074)) = round_units (x * 2 ^ 1074)"
    by (rule round_units_idem)
  moreover have "fl_pos x * 2 ^ 1074 = round_units (x * 2 ^ 1074)"
    unfolding fl_pos_def by simp
  ultimately show ?thesis by (simp only: fl_pos_def)
qed

lemma fl_zero: "fl 0 = 0"
  by (simp add: fl_def fl_pos_zero)

lemma fl_nonneg: "0 \<le> x \<Longrightarrow> 0 \<le> fl x"
  by (simp add: fl_def fl_pos_nonneg)

lemma fl_minus: "fl (- x) = - fl x"
  by (cases "x = 0") (auto simp: fl_def fl_pos_zero)

lemma fl_mono: assumes "x \<le> y" shows "fl x \<le> fl y"
proof (cases "0 \<le> x")
  case True
  then show ?thesis using assms by (simp add: fl_def fl_pos_mono)
next
  case False
  show ?thesis
  proof (cases "0 \<le> y")
    case True
    have "0 \<le> fl_pos (- x)" using False by (intro fl_pos_nonneg) simp
    moreover have "0 \<le> fl_pos y" using True by (rule fl_pos_nonneg)
    ultimately show ?thesis using False True by (simp add: fl_def)
  next
    case y: False
    have "fl_pos (- y) \<le> fl_pos (- x)" using y assms by (intro fl_pos_mono) simp_all
    then show ?thesis using False y by (simp add: fl_def)
  qed
qed

lemma fl_idem: "fl (fl x) = fl x"
proof (cases "0 \<le> x")
  case True
  then have "0 \<le> fl_pos x" by (rule fl_pos_nonneg)
  then show ?thesis using True by (simp add: fl_def fl_pos_idem)
next
  case False
  then have nx: "0 \<le> - x" by simp
  have "fl (fl (- x)) = fl (- x)"
    using fl_pos_nonneg[OF nx] nx by (simp add: fl_def fl_pos_idem)
  then have "- fl (fl x) = - fl x" by (simp only: fl_minus)
  then show ?thesis by simp
qed

lemma fl_exactI:
  assumes "0 \<le> x" "x * 2 ^ 1074 = of_nat m * 2 ^ j" "m < 2 ^ 53" shows "fl x = x"
proof -
  have "round_units (x * 2 ^ 1074) = x * 2 ^ 1074"
    using round_units_exact[OF assms(3), of j] by (simp only: assms(2))
  then have "fl_pos x = x * 2 ^ 1074 / 2 ^ 1074" by (simp only: fl_pos_def)
  then have "fl_pos x = x" by (simp only: nonzero_mult_div_cancel_right) simp
  then show ?thesis using assms(1) by (simp add: fl_def)
qed

lemma fl_of_nat: assumes "n \<le> 2 ^ 53" shows "fl (of_nat n) = of_nat n"
proof (cases "n = 2 ^ 53")
  case True
  have "fl (of_nat n) = of_nat n"
  proof (rule fl_exactI)
    show "real n * 2 ^ 1074 = of_nat (2 ^ 52) * 2 ^ 1075" by (simp add: True)
  qed simp_all
  then show ?thesis .
next
  case False
  show ?thesis
  proof (rule fl_exactI)
    show "n < 2 ^ 53" using assms False by simp
    show "real n * 2 ^ 1074 = of_nat n * 2 ^ 1074" by (rule refl)
  qed simp
qed

lemma ulp_exp_eq: assumes "2 ^ (52 + k) \<le> y" "y < 2 ^ (53 + k)" shows "ulp_exp y = k"
proof -
  let ?n = "nat \<lfloor>y\<rfloor>"
  have "real_of_int (int (2 ^ (52 + k))) \<le> y" using assms(1) by simp
  then have lo: "int (2 ^ (52 + k)) \<le> \<lfloor>y\<rfloor>" by (simp only: le_floor_iff)
  then have "2 ^ (52 + k) \<le> ?n" by linarith
  then have "2 ^ (Suc (52 + k) - 1) \<le> ?n" by (simp only: diff_Suc_1)
  then have a: "Suc (52 + k) \<le> floorlog 2 ?n" by (rule floorlog_geI) simp
  have "y < real_of_int (int (2 ^ (53 + k)))" using assms(2) by simp
  then have "\<lfloor>y\<rfloor> < int (2 ^ (53 + k))" by (simp only: floor_less_iff)
  then have "?n < 2 ^ (53 + k)" using lo by linarith
  then have b: "floorlog 2 ?n \<le> 53 + k" by (intro floorlog_leI) simp_all
  from a b show ?thesis by (simp add: ulp_exp_def)
qed

lemma rne_down: assumes "of_int n \<le> x" "x < of_int n + 1 / 2" shows "rne x = n"
proof -
  have f: "\<lfloor>x\<rfloor> = n" using assms by linarith
  have d: "x - of_int n < 1 / 2" using assms by linarith
  show ?thesis unfolding rne_def Let_def f using d by (simp only: if_True)
qed

lemma round_units_down:
  assumes "2 ^ 52 \<le> n" "n < 2 ^ 53"
    and "of_int n * 2 ^ k \<le> y" "y < (of_int n + 1 / 2) * 2 ^ k"
  shows "round_units y = of_int n * 2 ^ k"
proof -
  have "(2::real) ^ 52 \<le> of_int n" using assms(1)
    by (metis of_int_le_iff of_int_numeral of_int_power)
  then have "(2::real) ^ 52 * 2 ^ k \<le> of_int n * 2 ^ k" by (intro mult_right_mono) simp_all
  then have "(2::real) ^ 52 * 2 ^ k \<le> y" using assms(3) by linarith
  then have lo: "2 ^ (52 + k) \<le> y" by (simp only: power_add)
  have "n + 1 \<le> 2 ^ 53" using assms(2) by simp
  then have "real_of_int (n + 1) \<le> 2 ^ 53"
    by (metis of_int_le_iff of_int_numeral of_int_power)
  then have "real_of_int n + 1 / 2 < 2 ^ 53" by simp
  then have "(real_of_int n + 1 / 2) * 2 ^ k < 2 ^ 53 * 2 ^ k"
    by (intro mult_strict_right_mono) simp_all
  then have "y < 2 ^ 53 * 2 ^ k" using assms(4) by linarith
  then have hi: "y < 2 ^ (53 + k)" by (simp only: power_add)
  have k: "ulp_exp y = k" using lo hi by (rule ulp_exp_eq)
  have q1: "of_int n \<le> y / 2 ^ k" using assms(3) by (simp add: pos_le_divide_eq)
  have q2: "y / 2 ^ k < of_int n + 1 / 2" using assms(4) by (simp add: pos_divide_less_eq)
  have "rne (y / 2 ^ k) = n" using q1 q2 by (rule rne_down)
  then show ?thesis by (simp add: round_units_def Let_def k)
qed

lemma double_grid:
  assumes "fl x = x" "0 \<le> x" "x * 2 ^ 1074 < 2 ^ (53 + k)"
  shows "\<exists>n j. x * 2 ^ 1074 = of_int n * 2 ^ j \<and> n \<le> 2 ^ 53 \<and> j \<le> k"
proof -
  let ?y = "x * 2 ^ 1074"
  let ?j = "ulp_exp ?y"
  let ?n = "rne (?y / 2 ^ ?j)"
  have y0: "0 \<le> ?y" using assms(2) by (intro mult_nonneg_nonneg) simp_all
  have "fl_pos x = x" using assms(1,2) by (simp add: fl_def)
  then have "round_units ?y / 2 ^ 1074 = x" by (simp only: fl_pos_def)
  then have "round_units ?y = ?y" by (simp add: nonzero_divide_eq_eq)
  then have y: "?y = of_int ?n * 2 ^ ?j" by (simp add: round_units_def Let_def)
  have "?y / 2 ^ ?j \<le> of_int (2 ^ 53)" using scaled_lt[OF y0] by simp
  then have n: "?n \<le> 2 ^ 53" by (rule rne_le_int)
  have "\<lfloor>?y\<rfloor> < 2 ^ (53 + k)" using assms(3) by (simp add: floor_less_iff)
  then have "nat \<lfloor>?y\<rfloor> < 2 ^ (53 + k)" using y0 by (simp add: nat_less_iff)
  then have "floorlog 2 (nat \<lfloor>?y\<rfloor>) \<le> 53 + k" by (intro floorlog_leI) simp_all
  then have jk: "?j \<le> k" by (simp add: ulp_exp_def)
  from y n jk show ?thesis by blast
qed

lemma double_below:
  assumes "fl x = x" "0 \<le> x" "x * 2 ^ 1074 < 2 ^ (53 + k)"
  shows "x * 2 ^ 1074 \<le> (2 ^ 53 - 1) * 2 ^ k"
proof -
  obtain n :: int and j :: nat
    where y: "x * 2 ^ 1074 = of_int n * 2 ^ j" and n: "n \<le> 2 ^ 53" and jk: "j \<le> k"
    using double_grid[OF assms] by blast
  have nr: "real_of_int n \<le> 2 ^ 53" using n
    by (metis of_int_le_iff of_int_numeral of_int_power)
  show ?thesis
  proof (cases "j = k")
    case True
    have "of_int n * 2 ^ k < (2::real) ^ 53 * 2 ^ k"
      using y assms(3) True by (simp only: power_add)
    then have "real_of_int n < 2 ^ 53" by simp
    then have "real_of_int n < of_int (2 ^ 53)" by simp
    then have "n < 2 ^ 53" by (simp only: of_int_less_iff)
    then have "n \<le> 2 ^ 53 - 1" by simp
    then have "real_of_int n \<le> of_int (2 ^ 53 - 1)" by (simp only: of_int_le_iff)
    then have "real_of_int n \<le> 2 ^ 53 - 1" by simp
    then have "real_of_int n * 2 ^ k \<le> (2 ^ 53 - 1) * 2 ^ k" by (intro mult_right_mono) simp_all
    then show ?thesis using y True by (simp only:)
  next
    case False
    then have "Suc j \<le> k" using jk by simp
    then have p: "(2::real) ^ Suc j \<le> 2 ^ k" by (rule power_increasing) simp
    have aux: "2 ^ 53 * a \<le> (2 ^ 53 - 1) * b" if "0 < a" "2 * a \<le> b" for a b :: real
      using that by simp
    have "real_of_int n * 2 ^ j \<le> 2 ^ 53 * 2 ^ j" using nr by (intro mult_right_mono) simp_all
    moreover have "(2::real) ^ 53 * 2 ^ j \<le> (2 ^ 53 - 1) * 2 ^ k"
      by (rule aux) (use p in simp_all)
    ultimately show ?thesis using y by linarith
  qed
qed

lemma rne_tie_even: assumes "even n" shows "rne (of_int n + 1 / 2) = n"
proof -
  have f: "\<lfloor>real_of_int n + 1 / 2\<rfloor> = n" by linarith
  show ?thesis unfolding rne_def Let_def f using assms by simp
qed

lemma round_units_tie:
  assumes "2 ^ 52 \<le> n" "n < 2 ^ 53" "even n" "y = (of_int n + 1 / 2) * 2 ^ k"
  shows "round_units y = of_int n * 2 ^ k"
proof -
  have "(2::real) ^ 52 \<le> of_int n" using assms(1)
    by (metis of_int_le_iff of_int_numeral of_int_power)
  then have "(2::real) ^ 52 * 2 ^ k \<le> (of_int n + 1 / 2) * 2 ^ k"
    by (intro mult_right_mono) simp_all
  then have lo: "2 ^ (52 + k) \<le> y" by (simp only: power_add assms(4))
  have "n + 1 \<le> 2 ^ 53" using assms(2) by simp
  then have "real_of_int (n + 1) \<le> 2 ^ 53"
    by (metis of_int_le_iff of_int_numeral of_int_power)
  then have "real_of_int n + 1 / 2 < 2 ^ 53" by simp
  then have "(real_of_int n + 1 / 2) * 2 ^ k < 2 ^ 53 * 2 ^ k"
    by (intro mult_strict_right_mono) simp_all
  then have hi: "y < 2 ^ (53 + k)" by (simp only: power_add assms(4))
  have k: "ulp_exp y = k" using lo hi by (rule ulp_exp_eq)
  have "y / 2 ^ k = of_int n + 1 / 2" by (simp add: assms(4))
  then have "rne (y / 2 ^ k) = n" using rne_tie_even[OF assms(3)] by (simp only:)
  then show ?thesis by (simp add: round_units_def Let_def k)
qed

lemma fl_tie:
  assumes "2 ^ 52 \<le> n" "n < 2 ^ 53" "even n" "x * 2 ^ 1074 = (of_int n + 1 / 2) * 2 ^ k"
  shows "fl x = of_int n * 2 ^ k / 2 ^ 1074"
proof -
  have "0 \<le> (real_of_int n + 1 / 2) * 2 ^ k" using assms(1) by simp
  then have "0 \<le> x * 2 ^ 1074" by (simp only: assms(4))
  then have "0 \<le> x" by (simp add: zero_le_mult_iff)
  then show ?thesis
    using round_units_tie[OF assms] by (simp add: fl_def fl_pos_def)
qed

lemma rne_near: assumes "\<bar>x - of_int n\<bar> < 1 / 2" shows "rne x = n"
proof (cases "of_int n \<le> x")
  case True
  then show ?thesis using assms by (intro rne_down) linarith+
next
  case False
  then have f: "\<lfloor>x\<rfloor> = n - 1" using assms by linarith
  have d: "\<not> x - of_int (n - 1) < 1 / 2" "1 / 2 < x - of_int (n - 1)" using assms False by simp_all
  show ?thesis unfolding rne_def Let_def f using d by (simp only: if_False if_True)
qed

lemma round_units_near:
  assumes "2 ^ (52 + k) \<le> y" "y < 2 ^ (53 + k)" "\<bar>y - of_int n * 2 ^ k\<bar> < 2 ^ k / 2"
  shows "round_units y = of_int n * 2 ^ k"
proof -
  have k: "ulp_exp y = k" using assms(1,2) by (rule ulp_exp_eq)
  have "y / 2 ^ k - of_int n = (y - of_int n * 2 ^ k) / 2 ^ k"
    by (simp add: diff_divide_distrib)
  then have "\<bar>y / 2 ^ k - of_int n\<bar> = \<bar>y - of_int n * 2 ^ k\<bar> / 2 ^ k"
    by (simp only: abs_divide) simp
  also have "\<dots> < 2 ^ k / 2 / 2 ^ k" using assms(3) by (intro divide_strict_right_mono) simp_all
  finally have "\<bar>y / 2 ^ k - of_int n\<bar> < 1 / 2" by simp
  then have "rne (y / 2 ^ k) = n" by (rule rne_near)
  then show ?thesis by (simp add: round_units_def Let_def k)
qed

lemma fl_near:
  assumes "2 ^ (52 + k) \<le> x * 2 ^ 1074" "x * 2 ^ 1074 < 2 ^ (53 + k)"
    and "\<bar>x * 2 ^ 1074 - of_int n * 2 ^ k\<bar> < 2 ^ k / 2"
  shows "fl x = of_int n * 2 ^ k / 2 ^ 1074"
proof -
  have "(0::real) \<le> 2 ^ (52 + k)" by simp
  then have "0 \<le> x * 2 ^ 1074" using assms(1) by linarith
  then have "0 \<le> x" by (simp add: zero_le_mult_iff)
  then show ?thesis
    using round_units_near[OF assms] by (simp add: fl_def fl_pos_def)
qed

lemma round_units_error: assumes "0 \<le> y" shows "\<bar>round_units y - y\<bar> \<le> y / 2 ^ 53 + 1 / 2"
proof -
  let ?k = "ulp_exp y"
  let ?z = "y / 2 ^ ?k"
  have z: "\<bar>of_int (rne ?z) - ?z\<bar> \<le> 1 / 2" using rne_lower[of ?z] rne_upper[of ?z] by linarith
  have "round_units y - y = (of_int (rne ?z) - ?z) * 2 ^ ?k"
    by (simp add: round_units_def Let_def algebra_simps)
  then have "\<bar>round_units y - y\<bar> = \<bar>of_int (rne ?z) - ?z\<bar> * 2 ^ ?k"
    by (simp add: abs_mult)
  also have "\<dots> \<le> 1 / 2 * 2 ^ ?k" using z by (intro mult_right_mono) simp_all
  finally have e: "\<bar>round_units y - y\<bar> \<le> 2 ^ ?k / 2" by simp
  show ?thesis
  proof (cases "?k = 0")
    case True
    have "0 \<le> y / 2 ^ 53" using assms by simp
    then show ?thesis using e True by simp
  next
    case False
    then have "2 ^ 52 \<le> y / 2 ^ ?k" by (intro scaled_ge) simp
    then have "2 ^ 52 * 2 ^ ?k \<le> y" by (simp add: pos_le_divide_eq)
    then have "2 ^ ?k / 2 \<le> y / 2 ^ 53" by simp
    then show ?thesis using e by linarith
  qed
qed

lemma fl_pos_error: assumes "0 \<le> x" shows "\<bar>fl_pos x - x\<bar> \<le> x / 2 ^ 53 + 1 / 2 ^ 1075"
proof -
  let ?y = "x * 2 ^ 1074"
  have "0 \<le> ?y" using assms by (intro mult_nonneg_nonneg) simp_all
  then have e: "\<bar>round_units ?y - ?y\<bar> \<le> ?y / 2 ^ 53 + 1 / 2" by (rule round_units_error)
  have d: "fl_pos x - x = (round_units ?y - ?y) / 2 ^ 1074"
    by (simp add: fl_pos_def diff_divide_distrib)
  have "\<bar>fl_pos x - x\<bar> = \<bar>round_units ?y - ?y\<bar> / 2 ^ 1074"
    unfolding d by (simp only: abs_divide) simp
  also have "\<dots> \<le> (?y / 2 ^ 53 + 1 / 2) / 2 ^ 1074" using e by (intro divide_right_mono) simp_all
  also have "\<dots> = x / 2 ^ 53 + 1 / 2 ^ 1075" by (simp add: add_divide_distrib)
  finally show ?thesis .
qed

lemma fl_error: "\<bar>fl x - x\<bar> \<le> \<bar>x\<bar> / 2 ^ 53 + 1 / 2 ^ 1075"
proof (cases "0 \<le> x")
  case True
  then show ?thesis using fl_pos_error[of x] by (simp add: fl_def)
next
  case False
  then have "0 \<le> - x" by simp
  then have "\<bar>fl_pos (- x) - (- x)\<bar> \<le> (- x) / 2 ^ 53 + 1 / 2 ^ 1075" by (rule fl_pos_error)
  moreover have "\<bar>fl x - x\<bar> = \<bar>fl_pos (- x) - (- x)\<bar>" using False by (simp add: fl_def)
  moreover have "\<bar>x\<bar> = - x" using False by simp
  ultimately show ?thesis by (simp only:)
qed

section \<open>The generated flow and the accumulated volume\<close>

lemma random_le_top: assumes "Math_random_value r" shows "r \<le> 1 - 1 / 2 ^ 53"
proof -
  have r: "fl r = r" "0 \<le> r" "r < 1" using assms by (simp_all add: Math_random_value_def is_double_def)
  have "r * 2 ^ 1074 < 1 * 2 ^ 1074" using r(3) by (intro mult_strict_right_mono) simp_all
  then have "r * 2 ^ 1074 < 2 ^ (53 + 1021)" by simp
  with r(1,2) have "r * 2 ^ 1074 \<le> (2 ^ 53 - 1) * 2 ^ 1021" by (rule double_below)
  then show ?thesis by simp
qed

lemma fl_value:
  assumes "2 ^ 52 \<le> n" "n < 2 ^ 53"
    and "of_int n * 2 ^ k \<le> x * 2 ^ 1074" "x * 2 ^ 1074 < (of_int n + 1 / 2) * 2 ^ k"
  shows "fl x = of_int n * 2 ^ k / 2 ^ 1074"
proof -
  have "0 \<le> real_of_int n * 2 ^ k" using assms(1) by simp
  then have "0 \<le> x * 2 ^ 1074" using assms(3) by linarith
  then have "0 \<le> x" by (simp add: zero_le_mult_iff)
  then show ?thesis
    using round_units_down[OF assms] by (simp add: fl_def fl_pos_def)
qed

lemma fl_top_3: "fl ((1 - 1 / 2 ^ 53) * 3) = 3 - 1 / 2 ^ 51"
proof -
  have "fl ((1 - 1 / 2 ^ 53) * 3) = of_int (3 * 2 ^ 51 - 1) * 2 ^ 1023 / 2 ^ 1074"
    by (rule fl_value) simp_all
  then show ?thesis by simp
qed

lemma fl_top_12: "fl ((1 - 1 / 2 ^ 53) * 12) = 12 - 1 / 2 ^ 49"
proof -
  have "fl ((1 - 1 / 2 ^ 53) * 12) = of_int (3 * 2 ^ 51 - 1) * 2 ^ 1025 / 2 ^ 1074"
    by (rule fl_value) simp_all
  then show ?thesis by simp
qed

lemma js_mul_random_3: assumes "Math_random_value r" shows "0 \<le> js_mul r 3 \<and> js_mul r 3 < 3"
proof -
  have r0: "0 \<le> r" using assms by (simp add: Math_random_value_def)
  then have "0 \<le> fl (r * 3)" by (intro fl_nonneg) simp
  moreover have "r * 3 \<le> (1 - 1 / 2 ^ 53) * 3" using random_le_top[OF assms] by simp
  then have "fl (r * 3) \<le> fl ((1 - 1 / 2 ^ 53) * 3)" by (rule fl_mono)
  then have "fl (r * 3) < 3" by (simp only: fl_top_3) simp
  ultimately show ?thesis by (simp add: js_mul_def)
qed

lemma js_mul_random_12: assumes "Math_random_value r" shows "0 \<le> js_mul r 12 \<and> js_mul r 12 < 12"
proof -
  have r0: "0 \<le> r" using assms by (simp add: Math_random_value_def)
  then have "0 \<le> fl (r * 12)" by (intro fl_nonneg) simp
  moreover have "r * 12 \<le> (1 - 1 / 2 ^ 53) * 12" using random_le_top[OF assms] by simp
  then have "fl (r * 12) \<le> fl ((1 - 1 / 2 ^ 53) * 12)" by (rule fl_mono)
  then have "fl (r * 12) < 12" by (simp only: fl_top_12) simp
  ultimately show ?thesis by (simp add: js_mul_def)
qed

lemma js_add_small_int:
  assumes "0 \<le> n" "0 \<le> b" "n + b \<le> 2 ^ 53"
  shows "js_add (of_int n) (of_int b) = of_int (n + b)"
proof -
  have "nat (n + b) \<le> 2 ^ 53" using assms by (simp add: nat_le_iff)
  then have "fl (of_nat (nat (n + b))) = of_nat (nat (n + b))" by (rule fl_of_nat)
  moreover have "real (nat (n + b)) = of_int n + of_int b" using assms by simp
  ultimately show ?thesis by (simp add: js_add_def)
qed

lemma gen_flow_forced:
  assumes "Math_random_value r"
  shows "\<exists>n. gen_flow True r = of_int n \<and> 11 \<le> n \<and> n \<le> 13"
proof -
  let ?k = "\<lfloor>js_mul r 3\<rfloor>"
  have k: "0 \<le> ?k" "?k \<le> 2" using js_mul_random_3[OF assms] by (simp_all add: floor_le_iff)
  have "js_add (of_int ?k) (of_int 11) = of_int (?k + 11)" using k by (intro js_add_small_int) simp_all
  then have "gen_flow True r = of_int (?k + 11)" by (simp add: gen_flow_def Math_floor_def)
  then show ?thesis using k by (intro exI[of _ "?k + 11"]) simp
qed

lemma gen_flow_normal:
  assumes "Math_random_value r"
  shows "\<exists>n. gen_flow False r = of_int n \<and> 1 \<le> n \<and> n \<le> 12"
proof -
  let ?k = "\<lfloor>js_mul r 12\<rfloor>"
  have k: "0 \<le> ?k" "?k \<le> 11" using js_mul_random_12[OF assms] by (simp_all add: floor_le_iff)
  have "js_add (of_int ?k) (of_int 1) = of_int (?k + 1)" using k by (intro js_add_small_int) simp_all
  then have "gen_flow False r = of_int (?k + 1)" by (simp add: gen_flow_def Math_floor_def)
  then show ?thesis using k by (intro exI[of _ "?k + 1"]) simp
qed

lemma gen_flow_bounds:
  assumes "Math_random_value r" shows "1 \<le> gen_flow force r \<and> gen_flow force r \<le> 13"
proof (cases force)
  case True
  obtain n where "gen_flow True r = of_int n" "11 \<le> n" "n \<le> 13"
    using gen_flow_forced[OF assms] by blast
  then show ?thesis using True by simp
next
  case False
  obtain n where "gen_flow False r = of_int n" "1 \<le> n" "n \<le> 12"
    using gen_flow_normal[OF assms] by blast
  then show ?thesis using False by simp
qed

lemma rate_bounds: "0 \<le> js_div TICK_MS 60000 \<and> js_div TICK_MS 60000 \<le> 1"
proof -
  have "fl 0 \<le> fl (2000 / 60000)" by (rule fl_mono) simp
  moreover have "fl (2000 / 60000) \<le> fl (of_nat 1)" by (rule fl_mono) simp
  moreover have "fl (of_nat 1) = of_nat 1" by (rule fl_of_nat) simp
  ultimately show ?thesis by (simp add: js_div_def TICK_MS_def fl_zero)
qed

lemma increment_bounds:
  assumes "1 \<le> flow" "flow \<le> 13"
  shows "0 \<le> js_mul flow (js_div TICK_MS 60000) \<and> js_mul flow (js_div TICK_MS 60000) \<le> 13"
proof -
  let ?c = "js_div TICK_MS 60000"
  have c: "0 \<le> ?c" "?c \<le> 1" using rate_bounds by simp_all
  have "0 \<le> flow * ?c" using assms(1) c(1) by simp
  then have lo: "0 \<le> fl (flow * ?c)" by (rule fl_nonneg)
  have "flow * ?c \<le> 13 * 1" using assms c by (intro mult_mono) simp_all
  then have "fl (flow * ?c) \<le> fl (of_nat 13)" by (intro fl_mono) simp
  moreover have "fl (of_nat 13) = of_nat 13" by (rule fl_of_nat) simp
  ultimately show ?thesis using lo by (simp add: js_mul_def)
qed

lemma js_add_ge: assumes "fl t = t" "0 \<le> d" shows "t \<le> js_add t d"
proof -
  have "fl t \<le> fl (t + d)" using assms(2) by (intro fl_mono) simp
  then show ?thesis by (simp add: js_add_def assms(1))
qed

lemma fl_max_plus: "fl ((2 ^ 53 - 1) * 2 ^ 971 + 13) = (2 ^ 53 - 1) * 2 ^ 971"
proof -
  have "fl ((2 ^ 53 - 1) * 2 ^ 971 + 13) = of_int (2 ^ 53 - 1) * 2 ^ 2045 / 2 ^ 1074"
    by (rule fl_value) simp_all
  then show ?thesis by simp
qed

lemma js_add_is_double:
  assumes "is_double t" "0 \<le> d" "d \<le> 13" shows "is_double (js_add t d)"
proof -
  have t: "fl t = t" "\<bar>t\<bar> < 2 ^ 1024" using assms(1) by (simp_all add: is_double_def)
  have lo: "t \<le> js_add t d" using t(1) assms(2) by (rule js_add_ge)
  have hi: "js_add t d \<le> (2 ^ 53 - 1) * 2 ^ 971"
  proof (cases "0 \<le> t")
    case True
    have "t * 2 ^ 1074 < 2 ^ 1024 * 2 ^ 1074" using t(2) by (intro mult_strict_right_mono) simp_all
    then have "t * 2 ^ 1074 < 2 ^ (53 + 2045)" by simp
    with t(1) True have "t * 2 ^ 1074 \<le> (2 ^ 53 - 1) * 2 ^ 2045" by (rule double_below)
    then have "t \<le> (2 ^ 53 - 1) * 2 ^ 971" by simp
    then have "t + d \<le> (2 ^ 53 - 1) * 2 ^ 971 + 13" using assms(3) by linarith
    then have "fl (t + d) \<le> fl ((2 ^ 53 - 1) * 2 ^ 971 + 13)" by (rule fl_mono)
    then show ?thesis by (simp only: fl_max_plus js_add_def)
  next
    case False
    then have "t + d \<le> of_nat 13" using assms(3) by simp
    then have "fl (t + d) \<le> fl (of_nat 13)" by (rule fl_mono)
    moreover have "fl (of_nat 13) = of_nat 13" by (rule fl_of_nat) simp
    ultimately show ?thesis by (simp add: js_add_def)
  qed
  have "fl (js_add t d) = js_add t d" by (simp add: js_add_def fl_idem)
  moreover have "\<bar>js_add t d\<bar> < 2 ^ 1024" using lo hi t(2) by simp
  ultimately show ?thesis by (simp add: is_double_def)
qed

lemma div_mult_pow2: "j \<le> N \<Longrightarrow> a / 2 ^ j * 2 ^ N = a * (2::real) ^ (N - j)"
  by (simp add: power_diff)

lemma fl_dyadic: assumes "m < 2 ^ 53" "j \<le> 1074" shows "fl (of_nat m / 2 ^ j) = of_nat m / 2 ^ j"
proof (rule fl_exactI)
  show "0 \<le> real m / 2 ^ j" by simp
  show "m < 2 ^ 53" by (rule assms(1))
  show "real m / 2 ^ j * 2 ^ 1074 = real m * 2 ^ (1074 - j)"
    using assms(2) by (rule div_mult_pow2)
qed

lemma random_value_dyadic:
  assumes "m < 2 ^ j" "j \<le> 53" shows "Math_random_value (of_nat m / 2 ^ j)"
proof -
  have "(2::nat) ^ j \<le> 2 ^ 53" using assms(2) by (intro power_increasing) simp_all
  then have "m < 2 ^ 53" using assms(1) by linarith
  then have "fl (of_nat m / 2 ^ j) = of_nat m / 2 ^ j" using assms(2) by (intro fl_dyadic) simp_all
  moreover have "real m < 2 ^ j" using assms(1) by (metis of_nat_less_iff of_nat_numeral of_nat_power)
  then have lt: "real m / 2 ^ j < 1" by simp
  moreover have "\<bar>real m / 2 ^ j\<bar> < 2 ^ 1024"
  proof -
    have "\<bar>real m / 2 ^ j\<bar> = real m / 2 ^ j" by simp
    moreover have "(1::real) < 2 ^ 1024" by simp
    ultimately show ?thesis using lt by linarith
  qed
  ultimately show ?thesis by (simp add: Math_random_value_def is_double_def)
qed

lemma random_value_examples:
  "Math_random_value 0" "Math_random_value (1 / 2)" "Math_random_value (3 / 4)"
  "Math_random_value (3 / 8)" "Math_random_value (11 / 16)"
  using random_value_dyadic[of 0 0] random_value_dyadic[of 1 1] random_value_dyadic[of 3 2]
    random_value_dyadic[of 3 3] random_value_dyadic[of 11 4]
  by simp_all

lemma gen_flow_dyadic:
  assumes "m < 2 ^ 40" "j \<le> 40" "k = \<lfloor>real m * real sp / 2 ^ j\<rfloor>" "0 \<le> k" "k + base \<le> 2 ^ 53"
    "0 \<le> base" "sp \<le> 12"
  shows "js_add (Math_floor (js_mul (real m / 2 ^ j) (real sp))) (of_int base) = of_int (k + base)"
proof -
  have "m * sp \<le> 2 ^ 40 * 12" using assms(1,7) by (intro mult_mono) simp_all
  then have "m * sp < 2 ^ 53" by simp
  then have "fl (of_nat (m * sp) / 2 ^ j) = of_nat (m * sp) / 2 ^ j"
    using assms(2) by (intro fl_dyadic) simp_all
  then have "js_mul (real m / 2 ^ j) (real sp) = real m * real sp / 2 ^ j"
    by (simp add: js_mul_def)
  then have "Math_floor (js_mul (real m / 2 ^ j) (real sp)) = of_int k"
    by (simp add: Math_floor_def assms(3))
  then show ?thesis using assms(4,5,6) by (simp only: js_add_small_int)
qed

lemma gen_flow_examples:
  "gen_flow False 0 = 1" "gen_flow False (11 / 16) = 9" "gen_flow False (3 / 4) = 10"
  "gen_flow False (3 / 8) = 5" "gen_flow True 0 = 11" "gen_flow True (1 / 2) = 12"
  using gen_flow_dyadic[of 0 0 0 12 1] gen_flow_dyadic[of 11 4 8 12 1]
    gen_flow_dyadic[of 3 2 9 12 1] gen_flow_dyadic[of 3 3 4 12 1]
    gen_flow_dyadic[of 0 0 0 3 11] gen_flow_dyadic[of 1 1 1 3 11]
  by (simp_all add: gen_flow_def)

lemma js_add_count: assumes "n < 2 ^ 53" shows "js_add (of_nat n) 1 = of_nat n + 1"
proof -
  have "Suc n \<le> 2 ^ 53" using assms by simp
  then have "fl (of_nat (Suc n)) = of_nat (Suc n)" by (rule fl_of_nat)
  then show ?thesis by (simp add: js_add_def add.commute)
qed

lemma js_add_count_small: "js_add 0 1 = 1" "js_add 1 1 = 2" "js_add 2 1 = 3"
  using js_add_count[of 0] js_add_count[of 1] js_add_count[of 2] by simp_all

lemma js_add_count_ge: assumes "of_nat n \<le> c" "n < 2 ^ 53" shows "of_nat n + 1 \<le> js_add c 1"
proof -
  have "fl (of_nat n + 1) \<le> fl (c + 1)" using assms(1) by (intro fl_mono) simp
  then show ?thesis using js_add_count[OF assms(2)] by (simp add: js_add_def)
qed

lemma js_add_count_top: "js_add (2 ^ 53) 1 = 2 ^ 53"
proof -
  have "fl (2 ^ 53 + 1) = of_int (2 ^ 52) * 2 ^ 1075 / 2 ^ 1074"
    by (rule fl_tie) simp_all
  then show ?thesis by (simp add: js_add_def)
qed

lemma rate_value: "js_div TICK_MS 60000 = 4803839602528529 / 2 ^ 57"
proof -
  have "fl (2000 / 60000) = of_int 4803839602528529 * 2 ^ 1017 / 2 ^ 1074"
    by (rule fl_value) simp_all
  then show ?thesis by (simp add: js_div_def TICK_MS_def)
qed

lemma increment_error:
  assumes "1 \<le> f" "f \<le> 13"
  shows "\<bar>js_mul f (js_div TICK_MS 60000) - f * (TICK_MS / 60000)\<bar> \<le> 1 / 2 ^ 53"
proof -
  let ?c = "4803839602528529 / 2 ^ 57 :: real"
  have fc: "0 \<le> f * ?c" "f * ?c \<le> 13 * ?c" using assms by simp_all
  have "\<bar>fl (f * ?c) - f * ?c\<bar> \<le> \<bar>f * ?c\<bar> / 2 ^ 53 + 1 / 2 ^ 1075" by (rule fl_error)
  then have a: "\<bar>fl (f * ?c) - f * ?c\<bar> \<le> 13 * ?c / 2 ^ 53 + 1 / 2 ^ 1075"
    using fc by simp
  have "f * ?c - f * (2000 / 60000) = f * (?c - 2000 / 60000)" by (simp add: algebra_simps)
  also have "?c - 2000 / 60000 = - (1 / (15 * 2 ^ 57))" by simp
  finally have "\<bar>f * ?c - f * (2000 / 60000)\<bar> = f * (1 / (15 * 2 ^ 57))"
    using assms(1) by (simp add: abs_mult)
  also have "\<dots> \<le> 13 * (1 / (15 * 2 ^ 57))" using assms(2) by (intro mult_right_mono) simp_all
  finally have b: "\<bar>f * ?c - f * (2000 / 60000)\<bar> \<le> 13 * (1 / (15 * 2 ^ 57))" .
  have n: "13 * ?c / 2 ^ 53 + 1 / 2 ^ 1075 + 13 * (1 / (15 * 2 ^ 57)) \<le> (1::real) / 2 ^ 53"
    by simp
  have "\<bar>fl (f * ?c) - f * (2000 / 60000)\<bar> \<le> 1 / 2 ^ 53" using a b n by linarith
  then show ?thesis unfolding js_mul_def rate_value by (simp only: TICK_MS_def)
qed

lemma tick_total_error:
  assumes "1 \<le> f" "f \<le> 13"
  shows "\<bar>js_add t (js_mul f (js_div TICK_MS 60000)) - (t + f * (TICK_MS / 60000))\<bar>
           \<le> (\<bar>t\<bar> + 15) / 2 ^ 53"
proof -
  let ?p = "js_mul f (js_div TICK_MS 60000)"
  have p: "0 \<le> ?p" "?p \<le> 13" using increment_bounds[OF assms] by simp_all
  have e: "\<bar>?p - f * (TICK_MS / 60000)\<bar> \<le> 1 / 2 ^ 53" using assms by (rule increment_error)
  have "\<bar>fl (t + ?p) - (t + ?p)\<bar> \<le> \<bar>t + ?p\<bar> / 2 ^ 53 + 1 / 2 ^ 1075" by (rule fl_error)
  moreover have "\<bar>t + ?p\<bar> \<le> \<bar>t\<bar> + 13" using p by linarith
  then have "\<bar>t + ?p\<bar> / 2 ^ 53 \<le> (\<bar>t\<bar> + 13) / 2 ^ 53" by (intro divide_right_mono) simp_all
  moreover have "(1::real) / 2 ^ 1075 \<le> 1 / 2 ^ 53" by simp
  ultimately have "\<bar>fl (t + ?p) - (t + ?p)\<bar> \<le> (\<bar>t\<bar> + 13) / 2 ^ 53 + 1 / 2 ^ 53" by linarith
  then have "\<bar>fl (t + ?p) - (t + f * (TICK_MS / 60000))\<bar>
      \<le> (\<bar>t\<bar> + 13) / 2 ^ 53 + 1 / 2 ^ 53 + 1 / 2 ^ 53"
    using e by linarith
  also have "\<dots> = (\<bar>t\<bar> + 15) / 2 ^ 53" by (simp add: add_divide_distrib)
  finally show ?thesis by (simp only: js_add_def)
qed

lemma total_steps:
  "js_mul 1 (4803839602528529 / 2 ^ 57) = 4803839602528529 / 2 ^ 57"
  "js_add 0 (4803839602528529 / 2 ^ 57) = 4803839602528529 / 2 ^ 57"
  "js_mul 7 (4803839602528529 / 2 ^ 57) = 33626877217699704 / 2 ^ 57"
  "js_add (4803839602528529 / 2 ^ 57) (33626877217699704 / 2 ^ 57) = 38430716820228232 / 2 ^ 57"
  "js_mul 10 (4803839602528529 / 2 ^ 57) = 48038396025285288 / 2 ^ 57"
  "js_add (38430716820228232 / 2 ^ 57) (48038396025285288 / 2 ^ 57) = 86469112845513520 / 2 ^ 57"
proof -
  have c: "fl (4803839602528529 / 2 ^ 57) = of_int 4803839602528529 * 2 ^ 1017 / 2 ^ 1074"
    by (rule fl_value) simp_all
  show "js_mul 1 (4803839602528529 / 2 ^ 57) = 4803839602528529 / 2 ^ 57"
    using c by (simp add: js_mul_def)
  show "js_add 0 (4803839602528529 / 2 ^ 57) = 4803839602528529 / 2 ^ 57"
    using c by (simp add: js_add_def)
  have "fl (7 * (4803839602528529 / 2 ^ 57)) = of_int 8406719304424926 * 2 ^ 1019 / 2 ^ 1074"
    by (rule fl_near) simp_all
  then show "js_mul 7 (4803839602528529 / 2 ^ 57) = 33626877217699704 / 2 ^ 57"
    by (simp add: js_mul_def)
  have "fl (4803839602528529 / 2 ^ 57 + 33626877217699704 / 2 ^ 57)
      = of_int 4803839602528529 * 2 ^ 1020 / 2 ^ 1074"
    by (rule fl_value) simp_all
  then show "js_add (4803839602528529 / 2 ^ 57) (33626877217699704 / 2 ^ 57)
      = 38430716820228232 / 2 ^ 57"
    by (simp add: js_add_def)
  have "fl (10 * (4803839602528529 / 2 ^ 57)) = of_int 6004799503160661 * 2 ^ 1020 / 2 ^ 1074"
    by (rule fl_value) simp_all
  then show "js_mul 10 (4803839602528529 / 2 ^ 57) = 48038396025285288 / 2 ^ 57"
    by (simp add: js_mul_def)
  have "fl (38430716820228232 / 2 ^ 57 + 48038396025285288 / 2 ^ 57)
      = of_int 5404319552844595 * 2 ^ 1021 / 2 ^ 1074"
    by (rule fl_value) simp_all
  then show "js_add (38430716820228232 / 2 ^ 57) (48038396025285288 / 2 ^ 57)
      = 86469112845513520 / 2 ^ 57"
    by (simp add: js_add_def)
qed

lemma gen_flow_examples_more: "gen_flow False (1 / 2) = 7" "gen_flow False (5 / 8) = 8"
  using gen_flow_dyadic[of 1 1 6 12 1] gen_flow_dyadic[of 5 3 7 12 1]
  by (simp_all add: gen_flow_def)

section \<open>The tick and the runs\<close>

lemma length_push_point: "length (push_point x xs) = min (Suc (length xs)) MAX_POINTS"
  by (simp add: push_point_def slice_last_def Let_def MAX_POINTS_def)

lemma push_point_drop:
  "push_point x xs = drop (length xs + 1 - MAX_POINTS) (xs @ [x])"
  by (simp add: push_point_def slice_last_def Let_def)

lemma tick_fields:
  "currentFlow (tick r ts s) = gen_flow (forceLeak s) r"
  "series (tick r ts s) = push_point (gen_flow (forceLeak s) r) (series s)"
  "labels (tick r ts s) = push_point ts (labels s)"
  "totalLiters (tick r ts s) =
     js_add (totalLiters s) (js_mul (gen_flow (forceLeak s) r) (js_div TICK_MS 60000))"
  "highCount (tick r ts s) =
     (if LEAK_THRESHOLD < gen_flow (forceLeak s) r then js_add (highCount s) 1 else 0)"
  "leakDetected (tick r ts s) =
     (leakDetected s \<or> LEAK_CONSEC_TICKS \<le> highCount (tick r ts s))"
  "forceLeak (tick r ts s) = forceLeak s"
  by (simp_all add: tick_def tick_flow_def Let_def)

lemma run_append: "run (es @ fs) s = run fs (run es s)"
  by (induction es arbitrary: s) simp_all

lemma tick_total_is_double:
  assumes "is_double (totalLiters s)" "Math_random_value r"
  shows "is_double (totalLiters (tick r ts s))"
proof -
  let ?d = "js_mul (gen_flow (forceLeak s) r) (js_div TICK_MS 60000)"
  have "0 \<le> ?d \<and> ?d \<le> 13" using gen_flow_bounds[OF assms(2)] by (intro increment_bounds) simp_all
  then show ?thesis using assms(1) by (simp add: tick_fields js_add_is_double)
qed

lemma tick_total_mono:
  assumes "is_double (totalLiters s)" "Math_random_value r"
  shows "totalLiters s \<le> totalLiters (tick r ts s)"
proof -
  let ?d = "js_mul (gen_flow (forceLeak s) r) (js_div TICK_MS 60000)"
  have "0 \<le> ?d \<and> ?d \<le> 13" using gen_flow_bounds[OF assms(2)] by (intro increment_bounds) simp_all
  moreover have "fl (totalLiters s) = totalLiters s" using assms(1) by (simp add: is_double_def)
  ultimately show ?thesis by (simp add: tick_fields js_add_ge)
qed

lemma is_double_zero: "is_double 0"
  by (simp add: is_double_def fl_zero)

lemma apply_event_total_is_double:
  assumes "is_double (totalLiters s)" "random_ok e"
  shows "is_double (totalLiters (apply_event e s))"
  using assms
  by (cases e)
    (simp_all add: tick_total_is_double acknowledgeAlert_def resetDay_def toggleForceLeak_def
      is_double_zero)

lemma run_total_is_double:
  "is_double (totalLiters s) \<Longrightarrow> list_all random_ok es \<Longrightarrow> is_double (totalLiters (run es s))"
  by (induction es arbitrary: s) (simp_all add: apply_event_total_is_double)

lemma apply_event_total_mono:
  assumes "is_double (totalLiters s)" "random_ok e" "e \<noteq> ResetDay"
  shows "totalLiters s \<le> totalLiters (apply_event e s)"
  using assms
  by (cases e) (simp_all add: tick_total_mono acknowledgeAlert_def toggleForceLeak_def)

lemma run_total_mono:
  "is_double (totalLiters s) \<Longrightarrow> list_all random_ok es \<Longrightarrow> ResetDay \<notin> set es \<Longrightarrow>
     totalLiters s \<le> totalLiters (run es s)"
proof (induction es arbitrary: s)
  case Nil
  then show ?case by simp
next
  case (Cons e es)
  have "totalLiters s \<le> totalLiters (apply_event e s)"
    using Cons.prems by (intro apply_event_total_mono) auto
  moreover have "totalLiters (apply_event e s) \<le> totalLiters (run es (apply_event e s))"
    using Cons.prems by (intro Cons.IH apply_event_total_is_double) simp_all
  ultimately show ?case by simp
qed

lemma apply_event_history_bounded:
  assumes "length (series s) \<le> MAX_POINTS \<and> length (labels s) \<le> MAX_POINTS"
  shows "length (series (apply_event e s)) \<le> MAX_POINTS \<and>
         length (labels (apply_event e s)) \<le> MAX_POINTS"
  using assms
  by (cases e)
    (simp_all add: tick_fields length_push_point acknowledgeAlert_def resetDay_def
      toggleForceLeak_def)

lemma run_history_bounded:
  "length (series s) \<le> MAX_POINTS \<and> length (labels s) \<le> MAX_POINTS \<Longrightarrow>
   length (series (run es s)) \<le> MAX_POINTS \<and> length (labels (run es s)) \<le> MAX_POINTS"
  by (induction es arbitrary: s) (simp_all add: apply_event_history_bounded)

lemma apply_event_aligned:
  assumes "length (labels s) = length (series s)"
  shows "length (labels (apply_event e s)) = length (series (apply_event e s))"
  using assms
  by (cases e)
    (simp_all add: tick_fields length_push_point acknowledgeAlert_def resetDay_def
      toggleForceLeak_def)

lemma run_aligned:
  "length (labels s) = length (series s) \<Longrightarrow>
   length (labels (run es s)) = length (series (run es s))"
  by (induction es arbitrary: s) (simp_all add: apply_event_aligned)

lemma apply_event_keeps_flag:
  assumes "leakDetected s" "e \<noteq> AcknowledgeAlert" "e \<noteq> ResetDay"
  shows "leakDetected (apply_event e s)"
  using assms by (cases e) (simp_all add: tick_fields toggleForceLeak_def)

lemma run_keeps_flag:
  "leakDetected s \<Longrightarrow> AcknowledgeAlert \<notin> set es \<Longrightarrow> ResetDay \<notin> set es \<Longrightarrow>
   leakDetected (run es s)"
proof (induction es arbitrary: s)
  case Nil
  then show ?case by simp
next
  case (Cons e es)
  have "leakDetected (apply_event e s)"
    using Cons.prems by (intro apply_event_keeps_flag) auto
  then show ?case using Cons.prems by (simp add: Cons.IH)
qed

lemma forced_flow_high: assumes "Math_random_value r" shows "LEAK_THRESHOLD < gen_flow True r"
proof -
  obtain n where "gen_flow True r = of_int n" "11 \<le> n" using gen_flow_forced[OF assms] by blast
  then show ?thesis by (simp add: LEAK_THRESHOLD_def)
qed

lemma flow_bounds_forced: assumes "Math_random_value r" shows "11 \<le> gen_flow True r"
proof -
  obtain n where "gen_flow True r = of_int n" "11 \<le> n" using gen_flow_forced[OF assms] by blast
  then show ?thesis by simp
qed

lemma first_tick_total: "totalLiters (tick 0 ts init) = 4803839602528529 / 2 ^ 57"
  by (simp only: tick_fields init_def state.simps gen_flow_examples rate_value total_steps)

lemma three_tick_total:
  "totalLiters (run [Tick 0 t1, Tick (1 / 2) t2, Tick (3 / 4) t3] init) = 86469112845513520 / 2 ^ 57"
  by (simp only: run.simps apply_event.simps tick_fields init_def state.simps gen_flow_examples
      gen_flow_examples_more rate_value total_steps)

lemma forced_run_count:
  "forceLeak s \<Longrightarrow> highCount s = real m \<Longrightarrow> m + n \<le> 2 ^ 53 \<Longrightarrow>
   highCount (run (replicate n (Tick 0 ts)) s) = real (m + n) \<and>
   forceLeak (run (replicate n (Tick 0 ts)) s)"
proof (induction n arbitrary: s m)
  case 0
  then show ?case by simp
next
  case (Suc n)
  let ?s = "tick 0 ts s"
  have "m < 2 ^ 53" using Suc.prems(3) by simp
  then have "js_add (real m) 1 = real m + 1" by (rule js_add_count)
  then have c: "highCount ?s = real (Suc m)"
    using Suc.prems(1,2) by (simp add: tick_fields gen_flow_examples LEAK_THRESHOLD_def)
  have f: "forceLeak ?s" using Suc.prems(1) by (simp add: tick_fields)
  have "Suc m + n \<le> 2 ^ 53" using Suc.prems(3) by simp
  with f c have "highCount (run (replicate n (Tick 0 ts)) ?s) = real (Suc m + n) \<and>
      forceLeak (run (replicate n (Tick 0 ts)) ?s)"
    by (rule Suc.IH)
  then show ?case by simp
qed

section \<open>The leak rule\<close>

text \<open>
  C1, as amended. On every tick whose generated flow is strictly above
  \<open>LEAK_THRESHOLD\<close>, the count of consecutive high readings becomes the old count plus
  1, as long as the old count is a natural number below \<open>2 ^ 53\<close>; on every other tick,
  a flow equal to the threshold included, it becomes 0. The leak flag is set whenever the
  new count is at least \<open>LEAK_CONSEC_TICKS\<close>, and is otherwise what it was. With the
  threshold 8 and 3 consecutive ticks, three ticks that generate the flows 9, 10, 9 leave
  the flag set, from any state whose count is not negative; from a state with the count 0
  and the flag clear, the flows 9, 10, 5 never set it.
\<close>

theorem leak_rule:
  "(LEAK_THRESHOLD < gen_flow (forceLeak s) r \<and> highCount s \<in> \<nat> \<and> highCount s < 2 ^ 53 \<longrightarrow>
      highCount (tick r ts s) = highCount s + 1) \<and>
   (\<not> LEAK_THRESHOLD < gen_flow (forceLeak s) r \<longrightarrow> highCount (tick r ts s) = 0) \<and>
   (gen_flow (forceLeak s) r = LEAK_THRESHOLD \<longrightarrow> highCount (tick r ts s) = 0) \<and>
   (LEAK_CONSEC_TICKS \<le> highCount (tick r ts s) \<longrightarrow> leakDetected (tick r ts s)) \<and>
   leakDetected (tick r ts s) =
     (leakDetected s \<or> LEAK_CONSEC_TICKS \<le> highCount (tick r ts s)) \<and>
   LEAK_THRESHOLD = 8 \<and> LEAK_CONSEC_TICKS = 3 \<and>
   (0 \<le> highCount s \<and> gen_flow (forceLeak s) r1 = 9 \<and> gen_flow (forceLeak s) r2 = 10 \<and>
    gen_flow (forceLeak s) r3 = 9 \<longrightarrow>
      leakDetected (run [Tick r1 t1, Tick r2 t2, Tick r3 t3] s)) \<and>
   (highCount s = 0 \<and> \<not> leakDetected s \<and> gen_flow (forceLeak s) r1 = 9 \<and>
    gen_flow (forceLeak s) r2 = 10 \<and> gen_flow (forceLeak s) r4 = 5 \<longrightarrow>
      \<not> leakDetected (run [Tick r1 t1] s) \<and>
      \<not> leakDetected (run [Tick r1 t1, Tick r2 t2] s) \<and>
      \<not> leakDetected (run [Tick r1 t1, Tick r2 t2, Tick r4 t4] s))"
proof -
  have inc: "highCount (tick r ts s) = highCount s + 1"
    if hyp: "LEAK_THRESHOLD < gen_flow (forceLeak s) r \<and> highCount s \<in> \<nat> \<and> highCount s < 2 ^ 53"
  proof -
    from hyp have "highCount s \<in> range real" by (simp add: Nats_def)
    then obtain n where n: "highCount s = real n" by blast
    then have "real n < 2 ^ 53" using hyp by simp
    then have "n < 2 ^ 53" by (metis of_nat_less_iff of_nat_numeral of_nat_power)
    then show ?thesis using hyp n by (simp add: tick_fields js_add_count)
  qed
  have three: "leakDetected (run [Tick r1 t1, Tick r2 t2, Tick r3 t3] s)"
    if "0 \<le> highCount s \<and> gen_flow (forceLeak s) r1 = 9 \<and> gen_flow (forceLeak s) r2 = 10 \<and>
        gen_flow (forceLeak s) r3 = 9"
  proof -
    have "real 0 \<le> highCount s" using that by simp
    then have a: "real 0 + 1 \<le> js_add (highCount s) 1" by (rule js_add_count_ge) simp
    then have "real 1 \<le> js_add (highCount s) 1" by simp
    then have b: "real 1 + 1 \<le> js_add (js_add (highCount s) 1) 1" by (rule js_add_count_ge) simp
    then have "real 2 \<le> js_add (js_add (highCount s) 1) 1" by simp
    then have "real 2 + 1 \<le> js_add (js_add (js_add (highCount s) 1) 1) 1"
      by (rule js_add_count_ge) simp
    then show ?thesis
      using that by (simp add: tick_fields LEAK_THRESHOLD_def LEAK_CONSEC_TICKS_def)
  qed
  have rest: "(\<not> LEAK_THRESHOLD < gen_flow (forceLeak s) r \<longrightarrow> highCount (tick r ts s) = 0) \<and>
     (gen_flow (forceLeak s) r = LEAK_THRESHOLD \<longrightarrow> highCount (tick r ts s) = 0) \<and>
     (LEAK_CONSEC_TICKS \<le> highCount (tick r ts s) \<longrightarrow> leakDetected (tick r ts s)) \<and>
     leakDetected (tick r ts s) =
       (leakDetected s \<or> LEAK_CONSEC_TICKS \<le> highCount (tick r ts s)) \<and>
     LEAK_THRESHOLD = 8 \<and> LEAK_CONSEC_TICKS = 3 \<and>
     (highCount s = 0 \<and> \<not> leakDetected s \<and> gen_flow (forceLeak s) r1 = 9 \<and>
      gen_flow (forceLeak s) r2 = 10 \<and> gen_flow (forceLeak s) r4 = 5 \<longrightarrow>
        \<not> leakDetected (run [Tick r1 t1] s) \<and>
        \<not> leakDetected (run [Tick r1 t1, Tick r2 t2] s) \<and>
        \<not> leakDetected (run [Tick r1 t1, Tick r2 t2, Tick r4 t4] s))"
    by (simp add: tick_fields LEAK_THRESHOLD_def LEAK_CONSEC_TICKS_def js_add_count_small)
  from inc three rest show ?thesis by blast
qed

theorem leak_rule_witness:
  "LEAK_THRESHOLD < gen_flow (forceLeak init) (11 / 16) \<and> highCount init \<in> \<nat> \<and>
   highCount init < 2 ^ 53 \<and>
   highCount (tick (11 / 16) ''10:00:00'' init) = highCount init + 1 \<and>
   0 \<le> highCount init \<and>
   gen_flow (forceLeak init) (11 / 16) = 9 \<and> gen_flow (forceLeak init) (3 / 4) = 10 \<and>
   gen_flow (forceLeak init) (3 / 8) = 5 \<and> highCount init = 0 \<and> \<not> leakDetected init \<and>
   leakDetected
     (run [Tick (11 / 16) ''10:00:00'', Tick (3 / 4) ''10:00:02'', Tick (11 / 16) ''10:00:04'']
        init) \<and>
   \<not> leakDetected (run [Tick (11 / 16) ''10:00:00''] init) \<and>
   \<not> leakDetected (run [Tick (11 / 16) ''10:00:00'', Tick (3 / 4) ''10:00:02''] init) \<and>
   \<not> leakDetected
     (run [Tick (11 / 16) ''10:00:00'', Tick (3 / 4) ''10:00:02'', Tick (3 / 8) ''10:00:04'']
        init) \<and>
   gen_flow (forceLeak (init\<lparr>highCount := 2\<rparr>)) (5 / 8) = LEAK_THRESHOLD \<and>
   highCount (tick (5 / 8) ''10:00:04'' (init\<lparr>highCount := 2\<rparr>)) = 0"
proof -
  have g: "gen_flow (forceLeak init) (11 / 16) = 9" "gen_flow (forceLeak init) (3 / 4) = 10"
    "gen_flow (forceLeak init) (3 / 8) = 5"
    "gen_flow (forceLeak (init\<lparr>highCount := 2\<rparr>)) (5 / 8) = LEAK_THRESHOLD"
    by (simp_all add: init_def gen_flow_examples gen_flow_examples_more LEAK_THRESHOLD_def)
  have h: "LEAK_THRESHOLD < gen_flow (forceLeak init) (11 / 16)"
    by (simp add: init_def gen_flow_examples gen_flow_examples_more LEAK_THRESHOLD_def)
  have i: "highCount init = 0" "\<not> leakDetected init" "highCount init \<in> \<nat>"
    "highCount init < 2 ^ 53" "0 \<le> highCount init"
    by (simp_all add: init_def)
  show ?thesis
    using g h i
      leak_rule [of init "11 / 16" "''10:00:00''" "11 / 16" "3 / 4" "11 / 16" "''10:00:00''"
        "''10:00:02''" "''10:00:04''" "3 / 8" "''10:00:04''"]
      leak_rule [of "init\<lparr>highCount := 2\<rparr>" "5 / 8" "''10:00:04''"]
    by blast
qed

text \<open>
  C1 as stated has the count incremented on every tick with a high flow. After
  \<open>2 ^ 53\<close> ticks in forced mode from the initial state the count is \<open>2 ^ 53\<close>, and
  the next tick, with the flow 11, leaves it there: the binary64 sum of \<open>2 ^ 53\<close> and 1
  is \<open>2 ^ 53\<close>.
\<close>

theorem count_increment_counterexample:
  "highCount (run (replicate (2 ^ 53) (Tick 0 ''10:00:00'')) (toggleForceLeak init)) = 2 ^ 53 \<and>
   LEAK_THRESHOLD <
     gen_flow
       (forceLeak (run (replicate (2 ^ 53) (Tick 0 ''10:00:00'')) (toggleForceLeak init))) 0 \<and>
   highCount
     (tick 0 ''10:00:00''
        (run (replicate (2 ^ 53) (Tick 0 ''10:00:00'')) (toggleForceLeak init))) = 2 ^ 53 \<and>
   highCount
     (tick 0 ''10:00:00''
        (run (replicate (2 ^ 53) (Tick 0 ''10:00:00'')) (toggleForceLeak init))) \<noteq>
     highCount (run (replicate (2 ^ 53) (Tick 0 ''10:00:00'')) (toggleForceLeak init)) + 1"
proof -
  define s where "s = run (replicate (2 ^ 53) (Tick 0 ''10:00:00'')) (toggleForceLeak init)"
  have i: "forceLeak (toggleForceLeak init)" "highCount (toggleForceLeak init) = real 0"
    by (simp_all add: toggleForceLeak_def init_def)
  have "(0::nat) + 2 ^ 53 \<le> 2 ^ 53" by simp
  with i have "highCount s = real (0 + 2 ^ 53) \<and> forceLeak s"
    unfolding s_def by (rule forced_run_count)
  then have c: "highCount s = 2 ^ 53" and f: "forceLeak s" by simp_all
  have h: "LEAK_THRESHOLD < gen_flow (forceLeak s) 0"
    using f by (simp add: gen_flow_examples LEAK_THRESHOLD_def)
  then have t: "highCount (tick 0 ''10:00:00'' s) = 2 ^ 53"
    by (simp only: tick_fields if_True c js_add_count_top)
  have "(2::real) ^ 53 \<noteq> 2 ^ 53 + 1" by simp
  then have n: "highCount (tick 0 ''10:00:00'' s) \<noteq> highCount s + 1" by (simp only: t c) simp
  from c h t n show ?thesis unfolding s_def by blast
qed

text \<open>
  The same from a state given directly: at \<open>2 ^ 53\<close> the binary64 sum of the count and
  1 is the count again (the tie goes to the even significand).
\<close>

lemma count_stays_at_top:
  "highCount (tick (3 / 4) ts (init\<lparr>highCount := 2 ^ 53\<rparr>)) = 2 ^ 53"
proof -
  have "LEAK_THRESHOLD < gen_flow False (3 / 4)"
    by (simp add: gen_flow_examples LEAK_THRESHOLD_def)
  then show ?thesis by (simp only: tick_fields init_def state.simps if_True js_add_count_top)
qed

text \<open>
  C2, as amended. Once the leak flag is set, no tick sets it back, whatever the flow, and
  no run of events without \<open>acknowledgeAlert\<close> and without \<open>resetDay\<close> does. The
  operations that clear the flag are \<open>acknowledgeAlert\<close> and \<open>resetDay\<close>, and each
  of them sets the count to 0 at the same time.
\<close>

theorem flag_sticky_until_cleared:
  "(leakDetected s \<longrightarrow> leakDetected (tick r ts s)) \<and>
   (leakDetected s \<and> AcknowledgeAlert \<notin> set es \<and> ResetDay \<notin> set es \<longrightarrow>
      leakDetected (run es s)) \<and>
   \<not> leakDetected (acknowledgeAlert s) \<and> highCount (acknowledgeAlert s) = 0 \<and>
   \<not> leakDetected (resetDay s) \<and> highCount (resetDay s) = 0"
  by (simp add: tick_fields run_keeps_flag acknowledgeAlert_def resetDay_def)

theorem flag_sticky_until_cleared_witness:
  "leakDetected
     (run [Tick (3 / 4) ''10:00:00'', Tick (3 / 4) ''10:00:02'', Tick (3 / 4) ''10:00:04''] init) \<and>
   AcknowledgeAlert \<notin> set [Tick 0 ''10:00:06'', ToggleForceLeak, Tick 0 ''10:00:08''] \<and>
   ResetDay \<notin> set [Tick 0 ''10:00:06'', ToggleForceLeak, Tick 0 ''10:00:08''] \<and>
   gen_flow False 0 \<le> LEAK_THRESHOLD \<and>
   leakDetected
     (tick 0 ''10:00:06''
        (run [Tick (3 / 4) ''10:00:00'', Tick (3 / 4) ''10:00:02'', Tick (3 / 4) ''10:00:04'']
           init)) \<and>
   leakDetected
     (run [Tick 0 ''10:00:06'', ToggleForceLeak, Tick 0 ''10:00:08'']
        (run [Tick (3 / 4) ''10:00:00'', Tick (3 / 4) ''10:00:02'', Tick (3 / 4) ''10:00:04'']
           init))"
proof -
  let ?s = "run [Tick (3 / 4) ''10:00:00'', Tick (3 / 4) ''10:00:02'', Tick (3 / 4) ''10:00:04''] init"
  let ?es = "[Tick 0 ''10:00:06'', ToggleForceLeak, Tick 0 ''10:00:08'']"
  have s: "leakDetected ?s"
    by (simp add: tick_fields gen_flow_examples gen_flow_examples_more init_def LEAK_THRESHOLD_def LEAK_CONSEC_TICKS_def
        js_add_count_small)
  have es: "AcknowledgeAlert \<notin> set ?es" "ResetDay \<notin> set ?es" by simp_all
  have low: "gen_flow False 0 \<le> LEAK_THRESHOLD"
    by (simp add: gen_flow_examples gen_flow_examples_more LEAK_THRESHOLD_def)
  show ?thesis
    using s es low flag_sticky_until_cleared [of ?s 0 "''10:00:06''" ?es] by blast
qed

text \<open>
  C2 as stated has \<open>acknowledgeAlert\<close> as the only operation that clears the flag.
  Three ticks with the flow 10 from the initial state set the flag, and \<open>resetDay\<close>
  then clears it.
\<close>

theorem only_acknowledge_clears_counterexample:
  "leakDetected
     (run [Tick (3 / 4) ''10:00:00'', Tick (3 / 4) ''10:00:02'', Tick (3 / 4) ''10:00:04''] init) \<and>
   \<not> leakDetected
     (apply_event ResetDay
        (run [Tick (3 / 4) ''10:00:00'', Tick (3 / 4) ''10:00:02'', Tick (3 / 4) ''10:00:04'']
           init)) \<and>
   ResetDay \<noteq> AcknowledgeAlert"
  by (simp add: tick_fields gen_flow_examples gen_flow_examples_more init_def resetDay_def LEAK_THRESHOLD_def
      LEAK_CONSEC_TICKS_def js_add_count_small)

section \<open>The generated flow\<close>

text \<open>
  C3. For every value that \<^verbatim>\<open>Math.random()\<close> can return, the flow generated by a tick
  is an integer between 1 and 12 when the forced-leak switch is off, and an integer between
  11 and 13 when it is on. The product \<^verbatim>\<open>Math.random() * span\<close> is rounded to
  binary64 before \<^verbatim>\<open>Math.floor\<close>; the rounding never reaches \<open>span\<close>.
\<close>

theorem flow_range:
  assumes "Math_random_value r"
  shows "currentFlow (tick r ts s) = gen_flow (forceLeak s) r \<and>
         gen_flow False r \<in> \<int> \<and> 1 \<le> gen_flow False r \<and> gen_flow False r \<le> 12 \<and>
         gen_flow True r \<in> \<int> \<and> 11 \<le> gen_flow True r \<and> gen_flow True r \<le> 13"
proof -
  obtain m where m: "gen_flow False r = of_int m" "1 \<le> m" "m \<le> 12"
    using gen_flow_normal[OF assms] by blast
  obtain n where n: "gen_flow True r = of_int n" "11 \<le> n" "n \<le> 13"
    using gen_flow_forced[OF assms] by blast
  show ?thesis using m n by (simp add: tick_fields)
qed

theorem flow_range_witness:
  "Math_random_value (1 / 2) \<and>
   currentFlow (tick (1 / 2) ''10:00:00'' init) = gen_flow (forceLeak init) (1 / 2) \<and>
   gen_flow False (1 / 2) \<in> \<int> \<and> 1 \<le> gen_flow False (1 / 2) \<and> gen_flow False (1 / 2) \<le> 12 \<and>
   gen_flow True (1 / 2) \<in> \<int> \<and> 11 \<le> gen_flow True (1 / 2) \<and> gen_flow True (1 / 2) \<le> 13"
  using flow_range [of "1 / 2" "''10:00:00''" init] random_value_examples(2) by blast

section \<open>The history\<close>

text \<open>
  C4. After a tick and after \<open>resetDay\<close> the history has at most \<open>MAX_POINTS\<close>
  entries; \<open>acknowledgeAlert\<close>, and every run of events, keeps the bound. A tick puts
  the new sample at the back and, when that makes \<open>MAX_POINTS + 1\<close> entries or more,
  drops entries from the front: what stays is a suffix of the old history followed by the
  new sample, in the old order.
\<close>

theorem history_bounded_fifo:
  "length (series (tick r ts s)) \<le> MAX_POINTS \<and> length (labels (tick r ts s)) \<le> MAX_POINTS \<and>
   series (tick r ts s) =
     drop (length (series s) + 1 - MAX_POINTS) (series s @ [gen_flow (forceLeak s) r]) \<and>
   labels (tick r ts s) = drop (length (labels s) + 1 - MAX_POINTS) (labels s @ [ts]) \<and>
   length (series (resetDay s)) \<le> MAX_POINTS \<and> length (labels (resetDay s)) \<le> MAX_POINTS \<and>
   (length (series s) \<le> MAX_POINTS \<and> length (labels s) \<le> MAX_POINTS \<longrightarrow>
      length (series (acknowledgeAlert s)) \<le> MAX_POINTS \<and>
      length (labels (acknowledgeAlert s)) \<le> MAX_POINTS \<and>
      length (series (run es s)) \<le> MAX_POINTS \<and> length (labels (run es s)) \<le> MAX_POINTS)"
proof -
  have "length (series (tick r ts s)) \<le> MAX_POINTS" "length (labels (tick r ts s)) \<le> MAX_POINTS"
    by (simp_all add: tick_fields length_push_point)
  moreover have "series (tick r ts s) =
      drop (length (series s) + 1 - MAX_POINTS) (series s @ [gen_flow (forceLeak s) r])"
    "labels (tick r ts s) = drop (length (labels s) + 1 - MAX_POINTS) (labels s @ [ts])"
    by (simp_all only: tick_fields push_point_drop)
  moreover have "length (series (resetDay s)) \<le> MAX_POINTS"
    "length (labels (resetDay s)) \<le> MAX_POINTS"
    by (simp_all add: resetDay_def)
  moreover have "length (series (acknowledgeAlert s)) \<le> MAX_POINTS \<and>
      length (labels (acknowledgeAlert s)) \<le> MAX_POINTS \<and>
      length (series (run es s)) \<le> MAX_POINTS \<and> length (labels (run es s)) \<le> MAX_POINTS"
    if "length (series s) \<le> MAX_POINTS \<and> length (labels s) \<le> MAX_POINTS"
    using that run_history_bounded[OF that, of es] by (simp add: acknowledgeAlert_def)
  ultimately show ?thesis by blast
qed

theorem history_bounded_fifo_witness:
  "length (series init) \<le> MAX_POINTS \<and> length (labels init) \<le> MAX_POINTS \<and>
   length (series (acknowledgeAlert init)) \<le> MAX_POINTS \<and>
   length (labels (acknowledgeAlert init)) \<le> MAX_POINTS \<and>
   length (series (run [Tick 0 ''10:00:00'', AcknowledgeAlert, Tick (1 / 2) ''10:00:02''] init))
     \<le> MAX_POINTS \<and>
   length (labels (run [Tick 0 ''10:00:00'', AcknowledgeAlert, Tick (1 / 2) ''10:00:02''] init))
     \<le> MAX_POINTS"
proof -
  have "length (series init) \<le> MAX_POINTS \<and> length (labels init) \<le> MAX_POINTS"
    by (simp add: init_def)
  then show ?thesis
    using history_bounded_fifo
      [of 0 "''10:00:00''" init "[Tick 0 ''10:00:00'', AcknowledgeAlert, Tick (1 / 2) ''10:00:02'']"]
    by blast
qed

text \<open>
  C10. The labels and the flow values stay in step. A tick adds one entry to each and cuts
  both by the same rule, \<open>resetDay\<close> empties both, and the two lists start empty; so
  whenever they have the same length before an event, or before a run of events, they have
  the same length after it.
\<close>

theorem labels_series_aligned:
  "length (series (tick r ts s)) = min (length (series s) + 1) MAX_POINTS \<and>
   length (labels (tick r ts s)) = min (length (labels s) + 1) MAX_POINTS \<and>
   series (tick r ts s) =
     drop (length (series s) + 1 - MAX_POINTS) (series s @ [gen_flow (forceLeak s) r]) \<and>
   labels (tick r ts s) = drop (length (labels s) + 1 - MAX_POINTS) (labels s @ [ts]) \<and>
   series (resetDay s) = [] \<and> labels (resetDay s) = [] \<and>
   length (labels init) = length (series init) \<and>
   (length (labels s) = length (series s) \<longrightarrow>
      length (labels (tick r ts s)) = length (series (tick r ts s)) \<and>
      length (labels (acknowledgeAlert s)) = length (series (acknowledgeAlert s)) \<and>
      length (labels (resetDay s)) = length (series (resetDay s)) \<and>
      length (labels (toggleForceLeak s)) = length (series (toggleForceLeak s)) \<and>
      length (labels (run es s)) = length (series (run es s)))"
proof -
  have "length (series (tick r ts s)) = min (length (series s) + 1) MAX_POINTS"
    "length (labels (tick r ts s)) = min (length (labels s) + 1) MAX_POINTS"
    by (simp_all add: tick_fields length_push_point)
  moreover have "series (tick r ts s) =
      drop (length (series s) + 1 - MAX_POINTS) (series s @ [gen_flow (forceLeak s) r])"
    "labels (tick r ts s) = drop (length (labels s) + 1 - MAX_POINTS) (labels s @ [ts])"
    by (simp_all only: tick_fields push_point_drop)
  moreover have "series (resetDay s) = []" "labels (resetDay s) = []"
    "length (labels init) = length (series init)"
    by (simp_all add: resetDay_def init_def)
  moreover have "length (labels (tick r ts s)) = length (series (tick r ts s)) \<and>
      length (labels (acknowledgeAlert s)) = length (series (acknowledgeAlert s)) \<and>
      length (labels (resetDay s)) = length (series (resetDay s)) \<and>
      length (labels (toggleForceLeak s)) = length (series (toggleForceLeak s)) \<and>
      length (labels (run es s)) = length (series (run es s))"
    if "length (labels s) = length (series s)"
    using that run_aligned[OF that, of es]
      apply_event_aligned[OF that, of "Tick r ts"] apply_event_aligned[OF that, of AcknowledgeAlert]
      apply_event_aligned[OF that, of ResetDay] apply_event_aligned[OF that, of ToggleForceLeak]
    by simp
  ultimately show ?thesis by blast
qed

theorem labels_series_aligned_witness:
  "length (labels init) = length (series init) \<and>
   length (labels (tick (1 / 2) ''10:00:00'' init)) =
     length (series (tick (1 / 2) ''10:00:00'' init)) \<and>
   length (labels (run [Tick 0 ''10:00:00'', ResetDay, Tick (1 / 2) ''10:00:02''] init)) =
     length (series (run [Tick 0 ''10:00:00'', ResetDay, Tick (1 / 2) ''10:00:02''] init))"
  using labels_series_aligned
    [of "1 / 2" "''10:00:00''" init "[Tick 0 ''10:00:00'', ResetDay, Tick (1 / 2) ''10:00:02'']"]
  by blast

section \<open>The accumulated volume\<close>

text \<open>
  C5, as amended. A tick replaces the total volume by the binary64 value of
  \<^verbatim>\<open>prev + flow * (TICK_MS / 60000)\<close>, where \<open>flow\<close> is the flow generated on that
  tick and \<open>TICK_MS\<close> is 2000, each of the three operations rounded to the nearest
  binary64 value; nothing else is added. The rate \<^verbatim>\<open>TICK_MS / 60000\<close> is the binary64
  value \<open>4803839602528529 / 2 ^ 57\<close>, and for every value of \<^verbatim>\<open>Math.random()\<close> the new
  total is within \<open>(\<bar>prev\<bar> + 15) / 2 ^ 53\<close> of the exact
  \<open>prev + flow * (TICK_MS / 60000)\<close>. The first tick from the initial state with the
  flow 1 gives the total \<open>4803839602528529 / 2 ^ 57\<close>; three ticks with the flows 1, 7,
  10 give \<open>86469112845513520 / 2 ^ 57\<close>.
\<close>

theorem tick_accumulates_volume:
  "totalLiters (tick r ts s) =
     js_add (totalLiters s) (js_mul (currentFlow (tick r ts s)) (js_div TICK_MS 60000)) \<and>
   currentFlow (tick r ts s) = gen_flow (forceLeak s) r \<and> TICK_MS = 2000 \<and>
   js_div TICK_MS 60000 = 4803839602528529 / 2 ^ 57 \<and>
   (Math_random_value r \<longrightarrow>
      \<bar>totalLiters (tick r ts s) -
         (totalLiters s + gen_flow (forceLeak s) r * (TICK_MS / 60000))\<bar>
        \<le> (\<bar>totalLiters s\<bar> + 15) / 2 ^ 53) \<and>
   totalLiters (tick 0 t1 init) = 4803839602528529 / 2 ^ 57 \<and>
   totalLiters (run [Tick 0 t1, Tick (1 / 2) t2, Tick (3 / 4) t3] init) =
     86469112845513520 / 2 ^ 57"
proof -
  have bound: "\<bar>totalLiters (tick r ts s) -
         (totalLiters s + gen_flow (forceLeak s) r * (TICK_MS / 60000))\<bar>
        \<le> (\<bar>totalLiters s\<bar> + 15) / 2 ^ 53" if "Math_random_value r"
    using gen_flow_bounds[OF that, of "forceLeak s"]
    by (simp only: tick_fields) (intro tick_total_error, simp_all)
  have first: "totalLiters (tick 0 t1 init) = 4803839602528529 / 2 ^ 57"
    by (rule first_tick_total)
  have three: "totalLiters (run [Tick 0 t1, Tick (1 / 2) t2, Tick (3 / 4) t3] init) =
     86469112845513520 / 2 ^ 57"
    by (rule three_tick_total)
  have eq: "totalLiters (tick r ts s) =
     js_add (totalLiters s) (js_mul (currentFlow (tick r ts s)) (js_div TICK_MS 60000))"
    "currentFlow (tick r ts s) = gen_flow (forceLeak s) r" "TICK_MS = 2000"
    by (simp_all only: tick_fields TICK_MS_def)
  from eq rate_value bound first three show ?thesis by blast
qed

theorem tick_accumulates_volume_witness:
  "Math_random_value (1 / 2) \<and>
   \<bar>totalLiters (tick (1 / 2) ''10:00:00'' init) -
      (totalLiters init + gen_flow (forceLeak init) (1 / 2) * (TICK_MS / 60000))\<bar>
     \<le> (\<bar>totalLiters init\<bar> + 15) / 2 ^ 53 \<and>
   totalLiters
     (run [Tick 0 ''10:00:00'', Tick (1 / 2) ''10:00:02'', Tick (3 / 4) ''10:00:04''] init) =
     86469112845513520 / 2 ^ 57"
  using tick_accumulates_volume
      [of "1 / 2" "''10:00:00''" init "''10:00:00''" "''10:00:02''" "''10:00:04''"]
    random_value_examples(2)
  by blast

text \<open>
  C5 as stated has the total increase by exactly \<open>flow * (TICK_MS / 60000)\<close>. On the
  first tick from the initial state with \<^verbatim>\<open>Math.random()\<close> returning 0, the flow is 1 and
  the total becomes \<open>4803839602528529 / 2 ^ 57\<close>, which is not \<open>1 * (2000 / 60000)\<close>.
\<close>

theorem volume_increase_not_exact:
  "gen_flow (forceLeak init) 0 = 1 \<and>
   totalLiters (tick 0 ''10:00:00'' init) = 4803839602528529 / 2 ^ 57 \<and>
   totalLiters (tick 0 ''10:00:00'' init) \<noteq>
     totalLiters init + gen_flow (forceLeak init) 0 * (TICK_MS / 60000)"
proof -
  have g: "gen_flow (forceLeak init) 0 = 1" by (simp add: init_def gen_flow_examples)
  have t: "totalLiters (tick 0 ''10:00:00'' init) = 4803839602528529 / 2 ^ 57"
    by (rule first_tick_total)
  have "(4803839602528529 / 2 ^ 57 :: real) \<noteq> 0 + 1 * (2000 / 60000)" by simp
  then have "totalLiters (tick 0 ''10:00:00'' init) \<noteq>
     totalLiters init + gen_flow (forceLeak init) 0 * (TICK_MS / 60000)"
    unfolding t g by (simp add: init_def TICK_MS_def)
  with g t show ?thesis by blast
qed

text \<open>
  C6. Along every run of events, the total volume after a prefix of the run is at most the
  total after any longer prefix, as long as the events in between contain no \<open>resetDay\<close>;
  right after a \<open>resetDay\<close> the total is 0. The run starts from a state whose total is a
  binary64 value, and each tick draws a value of \<^verbatim>\<open>Math.random()\<close>.
\<close>

theorem total_nondecreasing_until_reset:
  assumes "is_double (totalLiters s)" "list_all random_ok (es @ fs)" "ResetDay \<notin> set fs"
  shows "totalLiters (run es s) \<le> totalLiters (run (es @ fs) s) \<and>
         totalLiters (run (es @ fs @ [ResetDay]) s) = 0"
proof -
  have "is_double (totalLiters (run es s))" using assms(1,2) by (intro run_total_is_double) simp_all
  then have "totalLiters (run es s) \<le> totalLiters (run fs (run es s))"
    using assms(2,3) by (intro run_total_mono) simp_all
  moreover have "totalLiters (run (es @ fs @ [ResetDay]) s) = 0"
    by (simp add: run_append resetDay_def)
  ultimately show ?thesis by (simp add: run_append)
qed

theorem total_nondecreasing_until_reset_witness:
  "is_double (totalLiters init) \<and>
   list_all random_ok
     ([Tick 0 ''10:00:00'', ResetDay, Tick (3 / 4) ''10:00:02''] @
      [Tick (1 / 2) ''10:00:04'', AcknowledgeAlert]) \<and>
   ResetDay \<notin> set [Tick (1 / 2) ''10:00:04'', AcknowledgeAlert] \<and>
   totalLiters (run [Tick 0 ''10:00:00'', ResetDay, Tick (3 / 4) ''10:00:02''] init) \<le>
     totalLiters
       (run ([Tick 0 ''10:00:00'', ResetDay, Tick (3 / 4) ''10:00:02''] @
             [Tick (1 / 2) ''10:00:04'', AcknowledgeAlert]) init) \<and>
   totalLiters
     (run ([Tick 0 ''10:00:00'', ResetDay, Tick (3 / 4) ''10:00:02''] @
           [Tick (1 / 2) ''10:00:04'', AcknowledgeAlert] @ [ResetDay]) init) = 0"
proof -
  have a: "is_double (totalLiters init)" by (simp add: init_def is_double_zero)
  have b: "list_all random_ok
     ([Tick 0 ''10:00:00'', ResetDay, Tick (3 / 4) ''10:00:02''] @
      [Tick (1 / 2) ''10:00:04'', AcknowledgeAlert])"
    by (simp add: random_value_examples)
  have c: "ResetDay \<notin> set [Tick (1 / 2) ''10:00:04'', AcknowledgeAlert]" by simp
  show ?thesis using a b c total_nondecreasing_until_reset [OF a b c] by blast
qed

section \<open>The forced leak\<close>

text \<open>
  C9. From a state with the flag clear, the count 0 and the forced-leak switch on, whatever
  \<^verbatim>\<open>Math.random()\<close> returns, every generated flow is at least 11, above the threshold
  8; the count is 1, 2 and 3 after the first, second and third tick, and the flag is clear
  after the first two ticks and set after the third.
\<close>

theorem forced_leak_flags_after_three_ticks:
  assumes "\<not> leakDetected s" "highCount s = 0" "forceLeak s"
    and "Math_random_value r1" "Math_random_value r2" "Math_random_value r3"
  shows "LEAK_CONSEC_TICKS = 3 \<and> LEAK_THRESHOLD = 8 \<and>
         11 \<le> gen_flow (forceLeak s) r1 \<and> 11 \<le> gen_flow (forceLeak s) r2 \<and>
         11 \<le> gen_flow (forceLeak s) r3 \<and>
         highCount (run [Tick r1 t1] s) = 1 \<and>
         highCount (run [Tick r1 t1, Tick r2 t2] s) = 2 \<and>
         highCount (run [Tick r1 t1, Tick r2 t2, Tick r3 t3] s) = 3 \<and>
         \<not> leakDetected (run [Tick r1 t1] s) \<and>
         \<not> leakDetected (run [Tick r1 t1, Tick r2 t2] s) \<and>
         leakDetected (run [Tick r1 t1, Tick r2 t2, Tick r3 t3] s)"
proof -
  have h: "LEAK_THRESHOLD < gen_flow True r1" "LEAK_THRESHOLD < gen_flow True r2"
    "LEAK_THRESHOLD < gen_flow True r3"
    using assms(4-6) by (simp_all add: forced_flow_high)
  have g: "11 \<le> gen_flow True r1" "11 \<le> gen_flow True r2" "11 \<le> gen_flow True r3"
    using flow_bounds_forced assms(4-6) by simp_all
  show ?thesis
    using assms(1-3) h g
    by (simp add: tick_fields LEAK_CONSEC_TICKS_def LEAK_THRESHOLD_def js_add_count_small)
qed

theorem forced_leak_flags_after_three_ticks_witness:
  "\<not> leakDetected (toggleForceLeak init) \<and> highCount (toggleForceLeak init) = 0 \<and>
   forceLeak (toggleForceLeak init) \<and> Math_random_value 0 \<and> Math_random_value (1 / 2) \<and>
   Math_random_value (3 / 4) \<and>
   \<not> leakDetected (run [Tick 0 ''10:00:00''] (toggleForceLeak init)) \<and>
   \<not> leakDetected
     (run [Tick 0 ''10:00:00'', Tick (1 / 2) ''10:00:02''] (toggleForceLeak init)) \<and>
   leakDetected
     (run [Tick 0 ''10:00:00'', Tick (1 / 2) ''10:00:02'', Tick (3 / 4) ''10:00:04'']
        (toggleForceLeak init))"
proof -
  have s: "\<not> leakDetected (toggleForceLeak init)" "highCount (toggleForceLeak init) = 0"
    "forceLeak (toggleForceLeak init)"
    by (simp_all add: toggleForceLeak_def init_def)
  have r: "Math_random_value 0" "Math_random_value (1 / 2)" "Math_random_value (3 / 4)"
    by (simp_all add: random_value_examples)
  show ?thesis
    using s r
      forced_leak_flags_after_three_ticks
        [OF s r, of "''10:00:00''" "''10:00:02''" "''10:00:04''"]
    by blast
qed

section \<open>Reset and acknowledge\<close>

text \<open>
  C7. For every state, \<open>resetDay\<close> empties the history (the flow values and their
  labels), sets the total volume to 0, clears the leak flag, sets the count of
  consecutive high readings to 0, and leaves the forced-leak switch as it was.
\<close>

theorem resetDay_effect:
  "series (resetDay s) = [] \<and> labels (resetDay s) = [] \<and> totalLiters (resetDay s) = 0 \<and>
   leakDetected (resetDay s) = False \<and> highCount (resetDay s) = 0 \<and>
   forceLeak (resetDay s) = forceLeak s"
  by (simp add: resetDay_def)

text \<open>
  C8. For every state, \<open>acknowledgeAlert\<close> clears the leak flag and sets the count to
  0, and changes no other field; the history and the total volume in particular. When
  the flag is already clear and the count already 0, the state is unchanged.
\<close>

theorem acknowledgeAlert_effect:
  "acknowledgeAlert s = s\<lparr>leakDetected := False, highCount := 0\<rparr> \<and>
   leakDetected (acknowledgeAlert s) = False \<and> highCount (acknowledgeAlert s) = 0 \<and>
   series (acknowledgeAlert s) = series s \<and> labels (acknowledgeAlert s) = labels s \<and>
   totalLiters (acknowledgeAlert s) = totalLiters s \<and>
   currentFlow (acknowledgeAlert s) = currentFlow s \<and>
   forceLeak (acknowledgeAlert s) = forceLeak s \<and>
   (\<not> leakDetected s \<and> highCount s = 0 \<longrightarrow> acknowledgeAlert s = s)"
  by (simp add: acknowledgeAlert_def)

theorem acknowledgeAlert_effect_witness:
  "\<not> leakDetected init \<and> highCount init = 0 \<and> acknowledgeAlert init = init"
  using acknowledgeAlert_effect [of init] by (simp add: init_def)

end
